theory Spec2Isabelle
  imports Complex_Main "HOL-Library.AList"
begin

section \<open>Data model (src/types/index.ts)\<close>

text \<open>
  A JavaScript \<open>number\<close> is modelled as a real: finite values, no rounding, no signed
  zero. \<open>NaN\<close> and the infinities are written out at the places where the code can
  produce them (a failed \<open>parseInt\<close>, a division by zero). An optional field
  (\<open>field?: T\<close>) is an \<open>option\<close>; \<open>None\<close> is \<open>undefined\<close>.
\<close>

type_synonym number = real

record Token =
  token_address :: string
  token_name :: string
  token_ticker :: string
  price_sol :: number
  market_cap_sol :: number
  volume_sol :: number
  liquidity_sol :: number
  transaction_count :: number
  price_1hr_change :: number
  price_24hr_change :: "number option"
  price_7d_change :: "number option"
  protocol :: string
  dex_id :: "string option"
  last_updated :: number

text \<open>
  A rejected promise is \<open>Inl\<close> of the error it carries, a fulfilled one \<open>Inr\<close> of its
  value; \<open>await\<close> on a rejected promise raises the error in the caller.
\<close>

record JsError =
  response_status :: "int option"
  message :: string

subsection \<open>The operator \<open>||\<close>\<close>

text \<open>
  \<open>a || b\<close> is \<open>a\<close> when \<open>a\<close> is truthy and \<open>b\<close> otherwise. The empty string, the
  number 0 and \<open>undefined\<close> are falsy.
\<close>

definition truthy_str :: "string \<Rightarrow> bool" where
  "truthy_str s = (s \<noteq> [])"

definition truthy_num :: "number \<Rightarrow> bool" where
  "truthy_num x = (x \<noteq> 0)"

definition truthy_opt :: "('a \<Rightarrow> bool) \<Rightarrow> 'a option \<Rightarrow> bool" where
  "truthy_opt p v = (case v of None \<Rightarrow> False | Some x \<Rightarrow> p x)"

definition js_or :: "('a \<Rightarrow> bool) \<Rightarrow> 'a \<Rightarrow> 'a \<Rightarrow> 'a" where
  "js_or truthy a b = (if truthy a then a else b)"

section \<open>AggregationService: merging\<close>

definition mergeSingleToken :: "Token \<Rightarrow> Token \<Rightarrow> Token" where
  "mergeSingleToken token1 token2 =
     \<lparr> token_address = token_address token1,
       token_name = js_or truthy_str (token_name token1) (token_name token2),
       token_ticker = js_or truthy_str (token_ticker token1) (token_ticker token2),
       price_sol = js_or truthy_num (price_sol token1) (price_sol token2),
       market_cap_sol = max (market_cap_sol token1) (market_cap_sol token2),
       volume_sol = max (volume_sol token1) (volume_sol token2),
       liquidity_sol = max (liquidity_sol token1) (liquidity_sol token2),
       transaction_count = max (transaction_count token1) (transaction_count token2),
       price_1hr_change = js_or truthy_num (price_1hr_change token1) (price_1hr_change token2),
       price_24hr_change =
         js_or (truthy_opt truthy_num) (price_24hr_change token1) (price_24hr_change token2),
       price_7d_change =
         js_or (truthy_opt truthy_num) (price_7d_change token1) (price_7d_change token2),
       protocol = (if protocol token1 \<noteq> ''Unknown'' then protocol token1 else protocol token2),
       dex_id = js_or (truthy_opt truthy_str) (dex_id token1) (dex_id token2),
       last_updated = max (last_updated token1) (last_updated token2) \<rparr>"

text \<open>
  \<open>String.prototype.toLowerCase\<close>, on the ASCII letters (token addresses are base58
  strings).
\<close>

definition lower_char :: "char \<Rightarrow> char" where
  "lower_char c =
     (let n = (of_char c :: nat) in if 65 \<le> n \<and> n \<le> 90 then char_of (n + 32) else c)"

definition toLowerCase :: "string \<Rightarrow> string" where
  "toLowerCase s = map lower_char s"

text \<open>
  A JavaScript \<open>Map\<close> keeps its keys in insertion order; \<open>set\<close> on a key that is
  present replaces the value in place, and on a new key appends. That is
  \<open>AList.update\<close> on an association list.
\<close>

type_synonym ('k, 'v) js_map = "('k \<times> 'v) list"

definition map_get :: "('k, 'v) js_map \<Rightarrow> 'k \<Rightarrow> 'v option" where
  "map_get m k = map_of m k"

definition map_set :: "'k \<Rightarrow> 'v \<Rightarrow> ('k, 'v) js_map \<Rightarrow> ('k, 'v) js_map" where
  "map_set k v m = AList.update k v m"

definition map_values :: "('k, 'v) js_map \<Rightarrow> 'v list" where
  "map_values m = map snd m"

definition merge_step :: "(string, Token) js_map \<Rightarrow> Token \<Rightarrow> (string, Token) js_map" where
  "merge_step tokenMap token =
     (let address = toLowerCase (token_address token) in
      case map_get tokenMap address of
        None \<Rightarrow> map_set address token tokenMap
      | Some existing \<Rightarrow> map_set address (mergeSingleToken existing token) tokenMap)"

definition mergeTokens :: "Token list \<Rightarrow> Token list" where
  "mergeTokens tokens = map_values (foldl merge_step [] tokens)"


text \<open>A sample record, for the concrete instances below.\<close>

definition tok :: "string \<Rightarrow> string \<Rightarrow> number \<Rightarrow> number \<Rightarrow> Token" where
  "tok addr name price vol =
     \<lparr>token_address = addr, token_name = name, token_ticker = ''TK'', price_sol = price,
      market_cap_sol = 0, volume_sol = vol, liquidity_sol = 0, transaction_count = 0,
      price_1hr_change = 0, price_24hr_change = None, price_7d_change = None,
      protocol = ''Unknown'', dex_id = None, last_updated = 0\<rparr>"

section \<open>Query options and page results (src/types/index.ts, src/config/index.ts)\<close>

datatype SortBy = Volume | PriceChange | MarketCap | Liquidity

datatype SortOrder = Asc | Desc

datatype TimePeriod = H1 | H24 | D7

text \<open>
  \<open>limit\<close> and the two thresholds are numbers that the cache key prints; they are
  modelled at their integer values, where \<open>Number.prototype.toString\<close> is the decimal
  numeral (the controller reads \<open>limit\<close> with \<open>parseInt\<close>).
\<close>

record QueryOptions =
  limit :: "int option"
  cursor :: "string option"
  time_period :: "TimePeriod option"
  sort_by :: "SortBy option"
  sort_order :: "SortOrder option"
  min_volume :: "int option"
  min_liquidity :: "int option"

record TokenResponse =
  tokens :: "Token list"
  next_cursor :: "string option"
  total_count :: nat
  timestamp :: number

definition defaultLimit :: int where
  "defaultLimit = 20"

definition maxLimit :: int where
  "maxLimit = 100"

definition truthy_int :: "int \<Rightarrow> bool" where
  "truthy_int x = (x \<noteq> 0)"

text \<open>\<open>v || d\<close> for an optional number \<open>v\<close> and a default \<open>d\<close>.\<close>

definition or_default :: "int option \<Rightarrow> int \<Rightarrow> int" where
  "or_default v d = (case v of None \<Rightarrow> d | Some x \<Rightarrow> if truthy_int x then x else d)"

section \<open>AggregationService: filter and sort\<close>

definition applyFilters :: "Token list \<Rightarrow> QueryOptions \<Rightarrow> Token list" where
  "applyFilters toks options =
     (let filtered = toks;
          filtered = (if truthy_opt truthy_int (min_volume options)
                      then filter (\<lambda>t. volume_sol t \<ge> of_int (the (min_volume options))) filtered
                      else filtered);
          filtered = (if truthy_opt truthy_int (min_liquidity options)
                      then filter (\<lambda>t. liquidity_sol t \<ge> of_int (the (min_liquidity options))) filtered
                      else filtered)
      in filtered)"

definition sort_value :: "SortBy \<Rightarrow> Token \<Rightarrow> number" where
  "sort_value sortBy a =
     (case sortBy of
        Volume \<Rightarrow> volume_sol a
      | MarketCap \<Rightarrow> market_cap_sol a
      | Liquidity \<Rightarrow> liquidity_sol a
      | PriceChange \<Rightarrow> js_or truthy_num (price_1hr_change a) 0)"

text \<open>
  \<open>Array.prototype.sort\<close> is stable; with the comparator \<open>bValue - aValue\<close> it orders
  by decreasing value and keeps equal values in their order, which is the stable
  insertion sort on the negated value.
\<close>

definition applySort :: "Token list \<Rightarrow> QueryOptions \<Rightarrow> Token list" where
  "applySort toks options =
     (let sortBy = (case sort_by options of None \<Rightarrow> Volume | Some s \<Rightarrow> s);
          sortOrder = (case sort_order options of None \<Rightarrow> Desc | Some d \<Rightarrow> d)
      in if sortOrder = Desc then sort_key (\<lambda>t. - sort_value sortBy t) toks
         else sort_key (sort_value sortBy) toks)"

section \<open>Library functions used by the pagination cursor\<close>

text \<open>
  A string is its sequence of UTF-8 bytes. \<open>Number.prototype.toString\<close> on an integer
  is its decimal numeral, with a minus sign below zero.
\<close>

definition digit_char :: "nat \<Rightarrow> char" where
  "digit_char d = char_of (48 + d)"

fun show_nat :: "nat \<Rightarrow> string" where
  "show_nat n = (if n < 10 then [digit_char n] else show_nat (n div 10) @ [digit_char (n mod 10)])"

declare show_nat.simps [simp del]

definition numberToString :: "int \<Rightarrow> string" where
  "numberToString i = (if i < 0 then CHR ''-'' # show_nat (nat (- i)) else show_nat (nat i))"

subsection \<open>Base64 (\<open>Buffer.from(s, 'base64')\<close> and \<open>buf.toString('base64')\<close>)\<close>

definition b64_alphabet :: string where
  "b64_alphabet = ''ABCDEFGHIJKLMNOPQRSTUVWXYZabcdefghijklmnopqrstuvwxyz0123456789+/''"

definition b64_char :: "nat \<Rightarrow> char" where
  "b64_char n = b64_alphabet ! n"

fun index_of :: "'a \<Rightarrow> 'a list \<Rightarrow> nat option" where
  "index_of x [] = None"
| "index_of x (y # ys) = (if x = y then Some 0 else map_option Suc (index_of x ys))"

text \<open>
  The decoder's table: the standard alphabet, and the URL-safe \<open>-\<close> and \<open>_\<close>. Every
  other character has no value.
\<close>

definition unbase64 :: "char \<Rightarrow> nat option" where
  "unbase64 c =
     (if c = CHR ''-'' then Some 62 else if c = CHR ''_'' then Some 63
      else index_of c b64_alphabet)"

fun b64_encode_bytes :: "nat list \<Rightarrow> string" where
  "b64_encode_bytes (a # b # c # r) =
     [b64_char (a div 4), b64_char ((a mod 4) * 16 + b div 16),
      b64_char ((b mod 16) * 4 + c div 64), b64_char (c mod 64)] @ b64_encode_bytes r"
| "b64_encode_bytes [a, b] =
     [b64_char (a div 4), b64_char ((a mod 4) * 16 + b div 16), b64_char ((b mod 16) * 4), CHR ''='']"
| "b64_encode_bytes [a] = [b64_char (a div 4), b64_char ((a mod 4) * 16), CHR ''='', CHR ''='']"
| "b64_encode_bytes [] = []"

definition base64_encode :: "string \<Rightarrow> string" where
  "base64_encode s = b64_encode_bytes (map of_char s)"

fun b64_decode_sextets :: "nat list \<Rightarrow> nat list" where
  "b64_decode_sextets (a # b # c # d # r) =
     [a * 4 + b div 16, (b mod 16) * 16 + c div 4, (c mod 4) * 64 + d] @ b64_decode_sextets r"
| "b64_decode_sextets [a, b, c] = [a * 4 + b div 16, (b mod 16) * 16 + c div 4]"
| "b64_decode_sextets [a, b] = [a * 4 + b div 16]"
| "b64_decode_sextets [a] = []"
| "b64_decode_sextets [] = []"

text \<open>
  Node's decoder does not fail: it skips every character outside its table, stops at
  the first \<open>=\<close>, and turns an incomplete last group into the bytes it determines.
\<close>

definition base64_decode :: "string \<Rightarrow> nat list" where
  "base64_decode s =
     b64_decode_sextets (List.map_filter unbase64 (takeWhile (\<lambda>c. c \<noteq> CHR ''='') s))"

subsection \<open>\<open>parseInt\<close> on the decoded bytes\<close>

text \<open>
  \<open>parseInt(s)\<close> skips leading white space, reads a sign, reads \<open>0x\<close> or \<open>0X\<close> as the
  prefix of a hexadecimal numeral, and takes the longest run of digits; with no digit the
  result is \<open>NaN\<close>, here \<open>None\<close>. It does not throw. The white space characters beyond
  ASCII are matched by their UTF-8 encodings.
\<close>

definition ws_len :: "nat list \<Rightarrow> nat" where
  "ws_len bs =
     (case bs of
        [] \<Rightarrow> 0
      | b # r \<Rightarrow>
          if b = 9 \<or> b = 10 \<or> b = 11 \<or> b = 12 \<or> b = 13 \<or> b = 32 then 1
          else if b = 194 \<and> take 1 r = [160] then 2
          else if b = 225 \<and> take 2 r = [154, 128] then 3
          else if b = 226 \<and>
                  (case r of
                     x # y # _ \<Rightarrow> x = 128 \<and> ((128 \<le> y \<and> y \<le> 138) \<or> y = 168 \<or> y = 169 \<or> y = 175)
                   | _ \<Rightarrow> False) then 3
          else if b = 226 \<and> take 2 r = [129, 159] then 3
          else if b = 227 \<and> take 2 r = [128, 128] then 3
          else if b = 239 \<and> take 2 r = [187, 191] then 3
          else 0)"

fun strip_ws :: "nat list \<Rightarrow> nat list" where
  "strip_ws [] = []"
| "strip_ws (b # r) =
     (if ws_len (b # r) = 0 then b # r else strip_ws (drop (ws_len (b # r) - 1) r))"

declare strip_ws.simps [simp del]

definition digit_val :: "nat \<Rightarrow> nat \<Rightarrow> nat option" where
  "digit_val radix b =
     (let v = (if 48 \<le> b \<and> b \<le> 57 then Some (b - 48)
               else if 97 \<le> b \<and> b \<le> 122 then Some (b - 87)
               else if 65 \<le> b \<and> b \<le> 90 then Some (b - 55)
               else None)
      in case v of None \<Rightarrow> None | Some d \<Rightarrow> if d < radix then Some d else None)"

definition digits_value :: "nat \<Rightarrow> nat list \<Rightarrow> nat" where
  "digits_value radix ds = foldl (\<lambda>acc b. acc * radix + the (digit_val radix b)) 0 ds"

definition parseInt_bytes :: "nat list \<Rightarrow> int option" where
  "parseInt_bytes input =
     (let s = strip_ws input;
          sign = (if take 1 s = [45] then - 1 else 1 :: int);
          s = (if take 1 s = [45] \<or> take 1 s = [43] then drop 1 s else s);
          hex = (take 2 s = [48, 120] \<or> take 2 s = [48, 88]);
          radix = (if hex then 16 else 10);
          s = (if hex then drop 2 s else s);
          z = takeWhile (\<lambda>b. digit_val radix b \<noteq> None) s
      in if z = [] then None else Some (sign * int (digits_value radix z)))"

text \<open>
  \<open>parseInt(Buffer.from(cursor, 'base64').toString('utf-8'))\<close>, the body of the \<open>try\<close>
  block of \<open>applyPagination\<close>. On a string neither call throws: the expression always
  returns, with \<open>NaN\<close> (\<open>None\<close>) when the bytes do not start with a numeral.
\<close>

definition decode_cursor :: "string \<Rightarrow> JsError + int option" where
  "decode_cursor c = Inr (parseInt_bytes (base64_decode c))"

text \<open>
  \<open>Array.prototype.slice(start, end)\<close>: \<open>NaN\<close> counts as 0, a negative index counts
  from the end, and both indices are clipped to the array.
\<close>

definition slice_index :: "nat \<Rightarrow> int option \<Rightarrow> nat" where
  "slice_index len i =
     (let r = (case i of None \<Rightarrow> 0 | Some x \<Rightarrow> x)
      in if r < 0 then nat (max (int len + r) 0) else nat (min r (int len)))"

definition js_slice :: "'a list \<Rightarrow> int option \<Rightarrow> int option \<Rightarrow> 'a list" where
  "js_slice xs start stop =
     (let k = slice_index (length xs) start;
          final = slice_index (length xs) stop
      in take (final - k) (drop k xs))"

section \<open>AggregationService: pagination and cache key\<close>

definition effective_limit :: "QueryOptions \<Rightarrow> int" where
  "effective_limit options = min (or_default (limit options) defaultLimit) maxLimit"

text \<open>
  \<open>startIndex\<close> starts at 0; a truthy cursor is decoded in a \<open>try\<close> block whose \<open>catch\<close>
  logs a warning and leaves \<open>startIndex\<close> as it is. An index is \<open>None\<close> when it is \<open>NaN\<close>.
\<close>

definition start_index :: "QueryOptions \<Rightarrow> int option" where
  "start_index options =
     (let startIndex = Some 0 in
      if truthy_opt truthy_str (cursor options)
      then (case decode_cursor (the (cursor options)) of
              Inr n \<Rightarrow> n
            | Inl error \<Rightarrow> startIndex)
      else startIndex)"

definition applyPagination :: "Token list \<Rightarrow> QueryOptions \<Rightarrow> number \<Rightarrow> TokenResponse" where
  "applyPagination toks options now =
     (let lim = effective_limit options;
          startIndex = start_index options;
          endIndex = map_option (\<lambda>s. s + lim) startIndex;
          paginatedTokens = js_slice toks startIndex endIndex;
          nextCursor = (case endIndex of
                          None \<Rightarrow> None
                        | Some e \<Rightarrow> if e < int (length toks)
                                     then Some (base64_encode (numberToString e)) else None)
      in \<lparr> tokens = paginatedTokens, next_cursor = nextCursor,
           total_count = length toks, timestamp = now \<rparr>)"

definition CACHE_KEY_PREFIX :: string where
  "CACHE_KEY_PREFIX = ''tokens:''"

fun join :: "string \<Rightarrow> string list \<Rightarrow> string" where
  "join sep [] = []"
| "join sep [p] = p"
| "join sep (p # q # ps) = p @ sep @ join sep (q # ps)"

definition sort_by_string :: "SortBy \<Rightarrow> string" where
  "sort_by_string s =
     (case s of Volume \<Rightarrow> ''volume'' | PriceChange \<Rightarrow> ''price_change''
      | MarketCap \<Rightarrow> ''market_cap'' | Liquidity \<Rightarrow> ''liquidity'')"

definition sort_order_string :: "SortOrder \<Rightarrow> string" where
  "sort_order_string d = (case d of Asc \<Rightarrow> ''asc'' | Desc \<Rightarrow> ''desc'')"

definition generateCacheKey :: "QueryOptions \<Rightarrow> string" where
  "generateCacheKey options =
     (let parts =
        [CACHE_KEY_PREFIX,
         ''aggregate'',
         sort_by_string (case sort_by options of None \<Rightarrow> Volume | Some s \<Rightarrow> s),
         sort_order_string (case sort_order options of None \<Rightarrow> Desc | Some d \<Rightarrow> d),
         numberToString (or_default (min_volume options) 0),
         numberToString (or_default (min_liquidity options) 0)]
      in join '':'' parts)"


section \<open>AggregationService.aggregateTokens\<close>

datatype 'a settled = Fulfilled 'a | Rejected JsError

text \<open>\<open>Promise.allSettled\<close> never rejects: it records each outcome.\<close>

definition settle :: "JsError + 'a \<Rightarrow> 'a settled" where
  "settle p = (case p of Inl e \<Rightarrow> Rejected e | Inr v \<Rightarrow> Fulfilled v)"

text \<open>
  \<open>cacheService.get\<close> and \<open>cacheService.set\<close> (src/services/cacheService.ts) wrap the
  Redis call in \<open>try\<close>/\<open>catch\<close>: a failing read is logged and gives \<open>null\<close>, a failing
  write is logged and dropped.
\<close>

definition cacheService_get :: "JsError + 'v option \<Rightarrow> JsError + 'v option" where
  "cacheService_get redis = (case redis of Inl e \<Rightarrow> Inr None | Inr v \<Rightarrow> Inr v)"

definition cacheService_set :: "JsError + unit \<Rightarrow> JsError + unit" where
  "cacheService_set redis = (case redis of Inl e \<Rightarrow> Inr () | Inr u \<Rightarrow> Inr ())"

text \<open>
  What one call of \<open>aggregateTokens\<close> meets outside itself: the outcome of the cache
  read, of the two adapters' fetches, of the cache write, and the clock.
\<close>

record AggregateEnv =
  redis_read :: "JsError + TokenResponse option"
  dexScreener_getTrendingTokens :: "JsError + Token list"
  jupiter_getAllTokens :: "JsError + Token list"
  redis_write :: "JsError + unit"
  date_now :: number

definition aggregateTokens :: "AggregateEnv \<Rightarrow> QueryOptions \<Rightarrow> JsError + TokenResponse" where
  "aggregateTokens env options =
     (case cacheService_get (redis_read env) of
        Inl e \<Rightarrow> Inl e
      | Inr (Some cached) \<Rightarrow> Inr cached
      | Inr None \<Rightarrow>
          (let dexTokens = settle (dexScreener_getTrendingTokens env);
               jupiterTokens = settle (jupiter_getAllTokens env);
               allTokens = [];
               allTokens = (case dexTokens of Fulfilled v \<Rightarrow> allTokens @ v | Rejected r \<Rightarrow> allTokens);
               allTokens = (case jupiterTokens of Fulfilled v \<Rightarrow> allTokens @ v | Rejected r \<Rightarrow> allTokens);
               mergedTokens = mergeTokens allTokens;
               filteredTokens = applyFilters mergedTokens options;
               sortedTokens = applySort filteredTokens options;
               paginatedResult = applyPagination sortedTokens options (date_now env)
           in case cacheService_set (redis_write env) of
                Inl e \<Rightarrow> Inl e
              | Inr u \<Rightarrow> Inr paginatedResult))"

section \<open>SocketManager.checkForUpdates\<close>

text \<open>
  The two percentages divide by a field of the previous token, which may be 0. Division
  of finite numbers by zero gives an infinity or \<open>NaN\<close>; the results of the arithmetic
  are values of \<open>jsnum\<close>. A comparison with \<open>NaN\<close> is false.
\<close>

datatype jsnum = Fin real | PosInfinity | NegInfinity | NaN

definition js_div :: "number \<Rightarrow> number \<Rightarrow> jsnum" where
  "js_div a b =
     (if b \<noteq> 0 then Fin (a / b)
      else if a > 0 then PosInfinity else if a < 0 then NegInfinity else NaN)"

definition js_times100 :: "jsnum \<Rightarrow> jsnum" where
  "js_times100 x = (case x of Fin r \<Rightarrow> Fin (r * 100) | other \<Rightarrow> other)"

definition js_abs :: "jsnum \<Rightarrow> jsnum" where
  "js_abs x =
     (case x of Fin r \<Rightarrow> Fin \<bar>r\<bar> | PosInfinity \<Rightarrow> PosInfinity
      | NegInfinity \<Rightarrow> PosInfinity | NaN \<Rightarrow> NaN)"

definition js_gt :: "jsnum \<Rightarrow> number \<Rightarrow> bool" where
  "js_gt x c =
     (case x of Fin r \<Rightarrow> r > c | PosInfinity \<Rightarrow> True | NegInfinity \<Rightarrow> False | NaN \<Rightarrow> False)"

definition priceChange :: "Token \<Rightarrow> Token \<Rightarrow> jsnum" where
  "priceChange currentToken previousToken =
     js_abs (js_times100 (js_div (price_sol currentToken - price_sol previousToken)
                                 (price_sol previousToken)))"

definition volumeIncrease :: "Token \<Rightarrow> Token \<Rightarrow> jsnum" where
  "volumeIncrease currentToken previousToken =
     js_times100 (js_div (volume_sol currentToken - volume_sol previousToken)
                         (volume_sol previousToken))"

datatype socket_event =
    TokenUpdate string Token
  | PriceUpdates "Token list"
  | VolumeSpikes "Token list"

record UpdateScan =
  updates :: "Token list"
  volumeSpikes :: "Token list"
  emitted :: "socket_event list"

text \<open>\<open>new Map(data.tokens.map(t => [t.token_address, t]))\<close>\<close>

definition currentTokens_of :: "Token list \<Rightarrow> (string, Token) js_map" where
  "currentTokens_of toks = foldl (\<lambda>m t. map_set (token_address t) t m) [] toks"

text \<open>The body of the loop over the entries of \<open>currentTokens\<close>.\<close>

definition scan_step :: "(string, Token) js_map \<Rightarrow> UpdateScan \<Rightarrow> string \<times> Token \<Rightarrow> UpdateScan" where
  "scan_step previousTokens acc entry =
     (let address = fst entry; currentToken = snd entry in
      case map_get previousTokens address of
        None \<Rightarrow> acc
      | Some previousToken \<Rightarrow>
          (let acc = (if js_gt (priceChange currentToken previousToken) 1
                      then acc\<lparr>updates := updates acc @ [currentToken]\<rparr> else acc);
               acc = (if js_gt (volumeIncrease currentToken previousToken) 50
                      then acc\<lparr>volumeSpikes := volumeSpikes acc @ [currentToken]\<rparr> else acc)
           in acc\<lparr>emitted := emitted acc @ [TokenUpdate address currentToken]\<rparr>))"

text \<open>
  One tick, given the outcome of the fresh aggregate: the scan with its broadcasts, and
  the new \<open>previousTokens\<close>. A failed aggregate is caught and logged; nothing is sent and
  the previous snapshot stays.
\<close>

definition checkForUpdates ::
  "(string, Token) js_map \<Rightarrow> JsError + TokenResponse \<Rightarrow> UpdateScan \<times> (string, Token) js_map" where
  "checkForUpdates previousTokens aggregate =
     (case aggregate of
        Inl e \<Rightarrow> (\<lparr>updates = [], volumeSpikes = [], emitted = []\<rparr>, previousTokens)
      | Inr data \<Rightarrow>
          (let currentTokens = currentTokens_of (tokens data);
               acc = foldl (scan_step previousTokens)
                       \<lparr>updates = [], volumeSpikes = [], emitted = []\<rparr> currentTokens;
               acc = (if length (updates acc) > 0
                      then acc\<lparr>emitted := emitted acc @ [PriceUpdates (updates acc)]\<rparr> else acc);
               acc = (if length (volumeSpikes acc) > 0
                      then acc\<lparr>emitted := emitted acc @ [VolumeSpikes (volumeSpikes acc)]\<rparr> else acc)
           in (acc, currentTokens)))"

section \<open>retryWithBackoff (src/utils/retry.ts)\<close>

record RetryConfig =
  maxRetries :: nat
  initialDelay :: number
  maxDelay :: number
  backoffMultiplier :: number

text \<open>
  \<open>error.response?.status && [404, 401, 403].includes(error.response.status)\<close>: a
  status that is absent or 0 is falsy.
\<close>

definition non_retryable :: "JsError \<Rightarrow> bool" where
  "non_retryable error =
     (case response_status error of
        None \<Rightarrow> False
      | Some st \<Rightarrow> st \<noteq> 0 \<and> (st = 404 \<or> st = 401 \<or> st = 403))"

definition backoff_delay :: "RetryConfig \<Rightarrow> nat \<Rightarrow> number" where
  "backoff_delay config attempt =
     min (initialDelay config * backoffMultiplier config ^ attempt) (maxDelay config)"

text \<open>
  What a call of \<open>retryWithBackoff\<close> did: its result (\<open>Inl\<close> the error it threw), the
  delays it slept in order, and how many times it called the operation.
\<close>

record 'a RetryRun =
  outcome :: "JsError + 'a"
  slept :: "number list"
  calls :: nat

text \<open>
  The operation is called once per attempt; \<open>fn k\<close> is the outcome of its call number
  \<open>k\<close>, counted from 0. The loop runs while \<open>attempt \<le> maxRetries\<close>.
\<close>

function retry_loop ::
  "(nat \<Rightarrow> JsError + 'a) \<Rightarrow> RetryConfig \<Rightarrow> nat \<Rightarrow> JsError \<Rightarrow> number list \<Rightarrow> 'a RetryRun" where
  "retry_loop fn config attempt lastError sl =
     (if attempt \<le> maxRetries config then
        (case fn attempt of
           Inr v \<Rightarrow> \<lparr>outcome = Inr v, slept = sl, calls = attempt + 1\<rparr>
         | Inl error \<Rightarrow>
             if non_retryable error then \<lparr>outcome = Inl error, slept = sl, calls = attempt + 1\<rparr>
             else if attempt < maxRetries config
             then retry_loop fn config (attempt + 1) error (sl @ [backoff_delay config attempt])
             else retry_loop fn config (attempt + 1) error sl)
      else \<lparr>outcome = Inl lastError, slept = sl, calls = attempt\<rparr>)"
  by pat_completeness auto
termination
  by (relation "measure (\<lambda>(fn, config, attempt, lastError, sl). maxRetries config + 1 - attempt)") auto

declare retry_loop.simps [simp del]

definition retryWithBackoff :: "(nat \<Rightarrow> JsError + 'a) \<Rightarrow> RetryConfig \<Rightarrow> 'a RetryRun" where
  "retryWithBackoff fn config =
     retry_loop fn config 0 \<lparr>response_status = None, message = ''Unknown error''\<rparr> []"

section \<open>RateLimiter (src/utils/retry.ts)\<close>

record RateLimiter =
  requestCount :: nat
  windowStart :: int
  maxRequests :: nat
  windowMs :: int

definition new_RateLimiter :: "nat \<Rightarrow> int \<Rightarrow> int \<Rightarrow> RateLimiter" where
  "new_RateLimiter maxReq window now =
     \<lparr>requestCount = 0, windowStart = now, maxRequests = maxReq, windowMs = window\<rparr>"

text \<open>
  \<open>acquire\<close> up to its \<open>await\<close>: the new state, and the time to sleep when the window
  is exhausted (\<open>None\<close> when the call returns at once).
\<close>

definition acquire_enter :: "RateLimiter \<Rightarrow> int \<Rightarrow> RateLimiter \<times> int option" where
  "acquire_enter this now =
     (let this = (if now - windowStart this \<ge> windowMs this
                  then this\<lparr>requestCount := 0, windowStart := now\<rparr> else this)
      in if requestCount this < maxRequests this
         then (this\<lparr>requestCount := requestCount this + 1\<rparr>, None)
         else (this, Some (windowMs this - (now - windowStart this))))"

text \<open>\<open>acquire\<close> after its sleep, at the time \<open>now\<close> it wakes.\<close>

definition acquire_resume :: "RateLimiter \<Rightarrow> int \<Rightarrow> RateLimiter" where
  "acquire_resume this now = this\<lparr>requestCount := 1, windowStart := now\<rparr>"

text \<open>
  A whole call of \<open>acquire\<close> that starts at \<open>fst clock\<close> and, when it has to sleep, wakes
  at \<open>snd clock\<close>.
\<close>

definition acquire :: "RateLimiter \<Rightarrow> int \<times> int \<Rightarrow> RateLimiter" where
  "acquire this clock =
     (case acquire_enter this (fst clock) of
        (this', None) \<Rightarrow> this'
      | (this', Some waitTime) \<Rightarrow> acquire_resume this' (snd clock))"

text \<open>
  Calls that overlap: each \<open>Enter\<close> runs a call up to its \<open>await\<close>, each \<open>Resume\<close> runs
  the rest of a sleeping call; the scheduler may order them in any way.
\<close>

datatype limiter_event = Enter int | Resume int

definition limiter_step :: "RateLimiter \<Rightarrow> limiter_event \<Rightarrow> RateLimiter" where
  "limiter_step this ev =
     (case ev of Enter now \<Rightarrow> fst (acquire_enter this now) | Resume now \<Rightarrow> acquire_resume this now)"

section \<open>Notions used to state the properties\<close>







text \<open>The identity key of a token: its lower-cased address.\<close>

definition addr_key :: "Token \<Rightarrow> string" where
  "addr_key t = toLowerCase (token_address t)"

text \<open>
  The invariant of the loop of \<open>mergeTokens\<close> after the records \<open>ts\<close>: keys are distinct,
  each entry sits under its own key and carries the address of the first record with that
  key, the keys are those of the records, and there are no more entries than records.
\<close>

definition merge_inv :: "(string, Token) js_map \<Rightarrow> Token list \<Rightarrow> bool" where
  "merge_inv m ts \<longleftrightarrow>
     distinct (map fst m)
   \<and> (\<forall>(k, v) \<in> set m. addr_key v = k
        \<and> (\<exists>t0. find (\<lambda>t. addr_key t = k) ts = Some t0 \<and> token_address v = token_address t0))
   \<and> fst ` set m = addr_key ` set ts
   \<and> length m \<le> length ts"

text \<open>The options that the cache key prints, with their defaults filled in.\<close>

definition effective_options :: "QueryOptions \<Rightarrow> SortBy \<times> SortOrder \<times> int \<times> int" where
  "effective_options options =
     (case sort_by options of None \<Rightarrow> Volume | Some s \<Rightarrow> s,
      case sort_order options of None \<Rightarrow> Desc | Some d \<Rightarrow> d,
      or_default (min_volume options) 0,
      or_default (min_liquidity options) 0)"

text \<open>
  The percentage as the specification writes it:
  \<open>|new.price - prev.price| / prev.price * 100\<close>.
\<close>

definition spec_priceDeltaPct :: "Token \<Rightarrow> Token \<Rightarrow> jsnum" where
  "spec_priceDeltaPct new prev =
     js_times100 (js_div \<bar>price_sol new - price_sol prev\<bar> (price_sol prev))"


text \<open>The counter of a rate limiter is within its budget.\<close>

definition limiter_ok :: "RateLimiter \<Rightarrow> bool" where
  "limiter_ok l \<longleftrightarrow> requestCount l \<le> maxRequests l"

text \<open>
  An attempt that fails with an error the loop retries, and an attempt that ends the
  loop: a success, or a failure with one of the statuses that are not retried.
\<close>

definition fails_retryable :: "(nat \<Rightarrow> JsError + 'a) \<Rightarrow> nat \<Rightarrow> bool" where
  "fails_retryable fn k = (case fn k of Inl e \<Rightarrow> \<not> non_retryable e | Inr v \<Rightarrow> False)"

definition decisive :: "(nat \<Rightarrow> JsError + 'a) \<Rightarrow> nat \<Rightarrow> bool" where
  "decisive fn k = (case fn k of Inl e \<Rightarrow> non_retryable e | Inr v \<Rightarrow> True)"

text \<open>
  Sample inputs for the retry loop: an HTTP failure with a status, the retry policy of
  src/config/index.ts, and two operations.
\<close>

definition http_error :: "int \<Rightarrow> JsError" where
  "http_error st = \<lparr>response_status = Some st, message = ''request failed''\<rparr>"

definition config_retry :: RetryConfig where
  "config_retry = \<lparr>maxRetries = 3, initialDelay = 1000, maxDelay = 10000, backoffMultiplier = 2\<rparr>"

definition fails_500_then_404 :: "nat \<Rightarrow> JsError + nat" where
  "fails_500_then_404 k = (if k = 0 then Inl (http_error 500) else Inl (http_error 404))"

definition fails_500_always :: "nat \<Rightarrow> JsError + nat" where
  "fails_500_always k = Inl (http_error 500)"

text \<open>A decimal digit, as a character.\<close>

definition is_digit :: "char \<Rightarrow> bool" where
  "is_digit c \<longleftrightarrow> 48 \<le> (of_char c :: nat) \<and> (of_char c :: nat) \<le> 57"

text \<open>The cache key, written out from the four printed values.\<close>

definition key_of :: "SortBy \<times> SortOrder \<times> int \<times> int \<Rightarrow> string" where
  "key_of e = (case e of (sb, so, mv, ml) \<Rightarrow>
      ''tokens::aggregate:'' @ sort_by_string sb @ CHR '':'' # sort_order_string so
         @ CHR '':'' # numberToString mv @ CHR '':'' # numberToString ml)"

text \<open>The empty option set \<open>{}\<close>.\<close>

definition no_options :: QueryOptions where
  "no_options = \<lparr>limit = None, cursor = None, time_period = None, sort_by = None,
     sort_order = None, min_volume = None, min_liquidity = None\<rparr>"



text \<open>Merge, filter, sort and paginate, in that order.\<close>

definition pipeline :: "Token list \<Rightarrow> QueryOptions \<Rightarrow> number \<Rightarrow> TokenResponse" where
  "pipeline ts options now =
     applyPagination (applySort (applyFilters (mergeTokens ts) options) options) options now"

text \<open>
  A call in which the cache is empty, the DexScreener fetch is rejected, the Jupiter
  fetch is fulfilled, and the cache write fails.
\<close>

definition env_dex_down :: AggregateEnv where
  "env_dex_down =
     \<lparr>redis_read = Inr None,
      dexScreener_getTrendingTokens = Inl (http_error 500),
      jupiter_getAllTokens = Inr [tok ''a1'' ''A'' 1 500, tok ''b2'' ''B'' 2 1000, tok ''A1'' ''C'' 3 20],
      redis_write = Inl (http_error 0),
      date_now = 1700000000000\<rparr>"

text \<open>The test of the loop of \<open>checkForUpdates\<close> that puts an entry in the price batch.\<close>

definition price_moved :: "(string, Token) js_map \<Rightarrow> string \<times> Token \<Rightarrow> bool" where
  "price_moved previousTokens entry =
     (case map_get previousTokens (fst entry) of
        None \<Rightarrow> False
      | Some previousToken \<Rightarrow> js_gt (priceChange (snd entry) previousToken) 1)"

text \<open>Every entry of a map of tokens sits under the address of its token, once.\<close>

definition keyed :: "(string, Token) js_map \<Rightarrow> bool" where
  "keyed m \<longleftrightarrow> distinct (map fst m) \<and> (\<forall>(k, v) \<in> set m. k = token_address v)"

text \<open>Sample snapshots: a page result, the previous snapshot, and a fresh aggregate.\<close>

definition response_of :: "Token list \<Rightarrow> TokenResponse" where
  "response_of toks = \<lparr>tokens = toks, next_cursor = None, total_count = length toks, timestamp = 0\<rparr>"

definition snapshot_before :: "(string, Token) js_map" where
  "snapshot_before = [(''a1'', tok ''a1'' ''A'' 1 5), (''b2'', tok ''b2'' ''B'' 1 7)]"

definition aggregate_after :: TokenResponse where
  "aggregate_after = response_of [tok ''a1'' ''A'' 1.02 5, tok ''b2'' ''B'' 1.005 7, tok ''c3'' ''C'' 4 9]"

section \<open>Merging two records\<close>



















section \<open>Merging a list of records\<close>

lemma mergeSingleToken_address: "token_address (mergeSingleToken a b) = token_address a"
  by (simp add: mergeSingleToken_def)

lemma find_append_first: "find P xs = Some y \<Longrightarrow> find P (xs @ zs) = Some y"
  by (induction xs) auto

lemma find_append_new: "\<forall>x \<in> set xs. \<not> P x \<Longrightarrow> P z \<Longrightarrow> find P (xs @ [z]) = Some z"
  by (induction xs) auto

lemma set_update_distinct:
  "distinct (map fst m) \<Longrightarrow>
     (k', v') \<in> set (AList.update k v m) \<longleftrightarrow> (if k' = k then v' = v else (k', v') \<in> set m)"
proof -
  assume d: "distinct (map fst m)"
  then have d': "distinct (map fst (AList.update k v m))" by (rule distinct_update)
  have "(k', v') \<in> set (AList.update k v m) \<longleftrightarrow> map_of (AList.update k v m) k' = Some v'"
    using map_of_eq_Some_iff [OF d'] by simp
  also have "\<dots> \<longleftrightarrow> (if k' = k then v' = v else map_of m k' = Some v')"
    by (auto simp: update_conv')
  also have "\<dots> \<longleftrightarrow> (if k' = k then v' = v else (k', v') \<in> set m)"
    using map_of_eq_Some_iff [OF d] by simp
  finally show ?thesis .
qed

lemma length_update_le: "length (AList.update k v al) \<le> Suc (length al)"
  by (induction al) auto

lemma length_update_mem: "k \<in> fst ` set al \<Longrightarrow> length (AList.update k v al) = length al"
  by (induction al) auto

lemma merge_inv_entry:
  "merge_inv m ts \<Longrightarrow> (k, v) \<in> set m \<Longrightarrow>
     addr_key v = k \<and>
     (\<exists>t0. find (\<lambda>t. addr_key t = k) ts = Some t0 \<and> token_address v = token_address t0)"
  unfolding merge_inv_def by blast

lemma merge_step_alt:
  "merge_step m t = (case map_of m (addr_key t) of
       None \<Rightarrow> AList.update (addr_key t) t m
     | Some e \<Rightarrow> AList.update (addr_key t) (mergeSingleToken e t) m)"
  unfolding merge_step_def Let_def map_get_def map_set_def addr_key_def ..

lemma merge_inv_step:
  assumes "merge_inv m ts"
  shows "merge_inv (merge_step m t) (ts @ [t])"
proof -
  from assms have keys_eq: "fst ` set m = addr_key ` set ts" by (simp add: merge_inv_def)
  show ?thesis
proof (cases "map_of m (addr_key t)")
  case None
  then have notin: "addr_key t \<notin> fst ` set m" by (simp add: map_of_eq_None_iff)
  have step: "merge_step m t = AList.update (addr_key t) t m"
    unfolding merge_step_alt None by simp
  from keys_eq notin have new: "\<forall>x \<in> set ts. addr_key x \<noteq> addr_key t" by (metis imageI)
  show ?thesis
    unfolding step merge_inv_def
  proof (intro conjI)
    show "distinct (map fst (AList.update (addr_key t) t m))"
      using assms by (simp add: merge_inv_def distinct_update)
    show "\<forall>(k, v)\<in>set (AList.update (addr_key t) t m). addr_key v = k \<and>
       (\<exists>t0. find (\<lambda>t. addr_key t = k) (ts @ [t]) = Some t0 \<and> token_address v = token_address t0)"
    proof (clarify)
      fix k v assume kv: "(k, v) \<in> set (AList.update (addr_key t) t m)"
      have d: "distinct (map fst m)" using assms by (simp add: merge_inv_def)
      show "addr_key v = k \<and> (\<exists>t0. find (\<lambda>t. addr_key t = k) (ts @ [t]) = Some t0 \<and> token_address v = token_address t0)"
      proof (cases "k = addr_key t")
        case True
        with kv d have "v = t" by (simp add: set_update_distinct)
        moreover from new have "find (\<lambda>x. addr_key x = addr_key t) (ts @ [t]) = Some t"
          by (intro find_append_new) auto
        ultimately show ?thesis using True by blast
      next
        case False
        with kv d have "(k, v) \<in> set m" by (simp add: set_update_distinct)
        from merge_inv_entry [OF assms this] show ?thesis by (blast intro: find_append_first)
      qed
    qed
    show "fst ` set (AList.update (addr_key t) t m) = addr_key ` set (ts @ [t])"
      using keys_eq by (simp add: dom_update)
    show "length (AList.update (addr_key t) t m) \<le> length (ts @ [t])"
      using assms length_update_le [of "addr_key t" t m] by (simp add: merge_inv_def)
  qed
next
  case (Some existing)
  have d: "distinct (map fst m)" using assms by (simp add: merge_inv_def)
  from Some have mem: "(addr_key t, existing) \<in> set m" by (rule map_of_SomeD)
  then have kin: "addr_key t \<in> fst ` set m" by force
  from merge_inv_entry [OF assms mem] obtain t0 where ex: "addr_key existing = addr_key t"
     "find (\<lambda>x. addr_key x = addr_key t) ts = Some t0" "token_address existing = token_address t0"
    by blast
  let ?v = "mergeSingleToken existing t"
  have step: "merge_step m t = AList.update (addr_key t) ?v m"
    unfolding merge_step_alt Some by simp
  have keyv: "addr_key ?v = addr_key t"
    using ex(1) by (simp add: addr_key_def mergeSingleToken_address)
  show ?thesis
    unfolding step merge_inv_def
  proof (intro conjI)
    show "distinct (map fst (AList.update (addr_key t) ?v m))"
      using d by (simp add: distinct_update)
    show "\<forall>(k, v)\<in>set (AList.update (addr_key t) ?v m). addr_key v = k \<and>
       (\<exists>t0. find (\<lambda>t. addr_key t = k) (ts @ [t]) = Some t0 \<and> token_address v = token_address t0)"
    proof (clarify)
      fix k v assume kv: "(k, v) \<in> set (AList.update (addr_key t) ?v m)"
      show "addr_key v = k \<and> (\<exists>t0. find (\<lambda>t. addr_key t = k) (ts @ [t]) = Some t0 \<and> token_address v = token_address t0)"
      proof (cases "k = addr_key t")
        case True
        with kv d have "v = ?v" by (simp add: set_update_distinct)
        moreover from ex(2) have "find (\<lambda>x. addr_key x = addr_key t) (ts @ [t]) = Some t0"
          by (rule find_append_first)
        moreover have "token_address ?v = token_address t0"
          using ex(3) by (simp add: mergeSingleToken_address)
        ultimately show ?thesis using True keyv by blast
      next
        case False
        with kv d have "(k, v) \<in> set m" by (simp add: set_update_distinct)
        from merge_inv_entry [OF assms this] show ?thesis by (blast intro: find_append_first)
      qed
    qed
    show "fst ` set (AList.update (addr_key t) ?v m) = addr_key ` set (ts @ [t])"
      using keys_eq kin by (simp add: dom_update insert_absorb)
    show "length (AList.update (addr_key t) ?v m) \<le> length (ts @ [t])"
      using assms kin by (simp add: merge_inv_def length_update_mem)
  qed
qed
qed

lemma merge_inv_foldl: "merge_inv (foldl merge_step [] ts) ts"
proof (induction ts rule: rev_induct)
  case Nil
  show ?case by (simp add: merge_inv_def)
next
  case (snoc t ts)
  then show ?case by (simp add: merge_inv_step)
qed

text \<open>
  C9. For every list of records, the output of \<open>mergeTokens\<close> has at most one record
  per lower-cased address; each output record carries the \<open>token_address\<close> of the first
  input record with its lower-cased address; and the output is no longer than the input.
\<close>

theorem mergeTokens_unique_address:
  "distinct (map (\<lambda>t. toLowerCase (token_address t)) (mergeTokens ts))
 \<and> (\<forall>r \<in> set (mergeTokens ts).
       \<exists>t0. find (\<lambda>t. toLowerCase (token_address t) = toLowerCase (token_address r)) ts = Some t0
          \<and> token_address r = token_address t0)
 \<and> length (mergeTokens ts) \<le> length ts"
proof -
  let ?m = "foldl merge_step [] ts"
  have inv: "merge_inv ?m ts" by (rule merge_inv_foldl)
  have keys: "map (\<lambda>t. toLowerCase (token_address t)) (map snd ?m) = map fst ?m"
  proof -
    have "\<forall>p \<in> set ?m. addr_key (snd p) = fst p"
      using merge_inv_entry [OF inv] by (metis prod.collapse)
    then show ?thesis by (simp add: addr_key_def)
  qed
  have 1: "distinct (map (\<lambda>t. toLowerCase (token_address t)) (mergeTokens ts))"
    unfolding mergeTokens_def map_values_def keys using inv by (simp add: merge_inv_def)
  have 2: "\<forall>r \<in> set (mergeTokens ts).
       \<exists>t0. find (\<lambda>t. toLowerCase (token_address t) = toLowerCase (token_address r)) ts = Some t0
          \<and> token_address r = token_address t0"
  proof
    fix r assume "r \<in> set (mergeTokens ts)"
    then obtain k where "(k, r) \<in> set ?m" by (auto simp: mergeTokens_def map_values_def)
    from merge_inv_entry [OF inv this] show "\<exists>t0. find (\<lambda>t. toLowerCase (token_address t) = toLowerCase (token_address r)) ts = Some t0
          \<and> token_address r = token_address t0"
      by (auto simp: addr_key_def)
  qed
  have 3: "length (mergeTokens ts) \<le> length ts"
    using inv by (simp add: mergeTokens_def map_values_def merge_inv_def)
  from 1 2 3 show ?thesis by blast
qed

theorem mergeTokens_unique_address_witness:
  "tok ''AbC'' ''A'' 1 9 \<in> set (mergeTokens [tok ''AbC'' ''A'' 1 5, tok ''xyz'' ''X'' 2 7, tok ''abc'' ''B'' 3 9])
 \<and> distinct (map (\<lambda>t. toLowerCase (token_address t))
       (mergeTokens [tok ''AbC'' ''A'' 1 5, tok ''xyz'' ''X'' 2 7, tok ''abc'' ''B'' 3 9]))
 \<and> find (\<lambda>t. toLowerCase (token_address t) = toLowerCase (token_address (tok ''AbC'' ''A'' 1 9)))
       [tok ''AbC'' ''A'' 1 5, tok ''xyz'' ''X'' 2 7, tok ''abc'' ''B'' 3 9] = Some (tok ''AbC'' ''A'' 1 5)
 \<and> token_address (tok ''AbC'' ''A'' 1 9) = token_address (tok ''AbC'' ''A'' 1 5)
 \<and> length (mergeTokens [tok ''AbC'' ''A'' 1 5, tok ''xyz'' ''X'' 2 7, tok ''abc'' ''B'' 3 9])
     \<le> length [tok ''AbC'' ''A'' 1 5, tok ''xyz'' ''X'' 2 7, tok ''abc'' ''B'' 3 9]"
proof -
  have "mergeTokens [tok ''AbC'' ''A'' 1 5, tok ''xyz'' ''X'' 2 7, tok ''abc'' ''B'' 3 9]
      = [tok ''AbC'' ''A'' 1 9, tok ''xyz'' ''X'' 2 7]"
    by code_simp
  then have mem: "tok ''AbC'' ''A'' 1 9
      \<in> set (mergeTokens [tok ''AbC'' ''A'' 1 5, tok ''xyz'' ''X'' 2 7, tok ''abc'' ''B'' 3 9])"
    by simp
  have first: "find (\<lambda>t. toLowerCase (token_address t) = toLowerCase (token_address (tok ''AbC'' ''A'' 1 9)))
       [tok ''AbC'' ''A'' 1 5, tok ''xyz'' ''X'' 2 7, tok ''abc'' ''B'' 3 9] = Some (tok ''AbC'' ''A'' 1 5)"
    by code_simp
  have addr: "token_address (tok ''AbC'' ''A'' 1 9) = token_address (tok ''AbC'' ''A'' 1 5)"
    by (simp add: tok_def)
  from mem first addr mergeTokens_unique_address
         [of "[tok ''AbC'' ''A'' 1 5, tok ''xyz'' ''X'' 2 7, tok ''abc'' ''B'' 3 9]"]
  show ?thesis by blast
qed

section \<open>The rate limiter\<close>

lemma acquire_enter_max: "maxRequests (fst (acquire_enter l now)) = maxRequests l"
  by (simp add: acquire_enter_def Let_def)

lemma acquire_resume_max: "maxRequests (acquire_resume l now) = maxRequests l"
  by (simp add: acquire_resume_def)

lemma acquire_enter_ok: "limiter_ok l \<Longrightarrow> limiter_ok (fst (acquire_enter l now))"
  by (simp add: acquire_enter_def limiter_ok_def Let_def)

lemma acquire_resume_ok: "1 \<le> maxRequests l \<Longrightarrow> limiter_ok (acquire_resume l now)"
  by (simp add: acquire_resume_def limiter_ok_def)

lemma acquire_alt:
  "acquire l c = (case snd (acquire_enter l (fst c)) of
       None \<Rightarrow> fst (acquire_enter l (fst c))
     | Some w \<Rightarrow> acquire_resume (fst (acquire_enter l (fst c))) (snd c))"
  by (simp add: acquire_def split: prod.splits option.splits)

lemma acquire_max: "maxRequests (acquire l c) = maxRequests l"
  by (simp add: acquire_alt acquire_enter_max acquire_resume_max split: option.splits)

lemma acquire_ok: "1 \<le> maxRequests l \<Longrightarrow> limiter_ok l \<Longrightarrow> limiter_ok (acquire l c)"
  by (simp add: acquire_alt acquire_enter_ok acquire_resume_ok acquire_enter_max split: option.splits)

lemma limiter_step_max: "maxRequests (limiter_step l ev) = maxRequests l"
  by (cases ev) (simp_all add: limiter_step_def acquire_enter_max acquire_resume_max)

lemma limiter_step_ok: "1 \<le> maxRequests l \<Longrightarrow> limiter_ok l \<Longrightarrow> limiter_ok (limiter_step l ev)"
  by (cases ev) (simp_all add: limiter_step_def acquire_enter_ok acquire_resume_ok)

lemma foldl_acquire_ok:
  "1 \<le> maxRequests l \<Longrightarrow> limiter_ok l \<Longrightarrow>
     limiter_ok (foldl acquire l cs) \<and> maxRequests (foldl acquire l cs) = maxRequests l"
  by (induction cs arbitrary: l) (simp_all add: acquire_ok acquire_max)

lemma foldl_step_ok:
  "1 \<le> maxRequests l \<Longrightarrow> limiter_ok l \<Longrightarrow>
     limiter_ok (foldl limiter_step l evs) \<and> maxRequests (foldl limiter_step l evs) = maxRequests l"
  by (induction evs arbitrary: l) (simp_all add: limiter_step_ok limiter_step_max)

lemma new_ok: "limiter_ok (new_RateLimiter m w t0)" "maxRequests (new_RateLimiter m w t0) = m"
  by (simp_all add: new_RateLimiter_def limiter_ok_def)

lemma acquire_count:
  "requestCount (acquire l (now, wake)) =
     (let c = (if now - windowStart l \<ge> windowMs l then 0 else requestCount l)
      in if c < maxRequests l then c + 1 else 1)"
  by (simp add: acquire_def acquire_enter_def acquire_resume_def Let_def)

text \<open>
  C10. For a rate limiter built with \<open>maxRequests \<ge> 1\<close>, the request counter is at most
  \<open>maxRequests\<close> after every sequence of completed \<open>acquire\<close> calls, and also after
  every interleaving of the two halves of overlapping calls. One call sets the counter to
  \<open>c + 1\<close> when \<open>c < maxRequests\<close> and to 1 otherwise (after the wait), where \<open>c\<close> is 0
  when the window has expired and the old counter when it has not.
\<close>

theorem rateLimiter_counter_bounded:
  assumes "1 \<le> maxReq"
  shows "requestCount (foldl acquire (new_RateLimiter maxReq window t0) cs) \<le> maxReq
       \<and> requestCount (foldl limiter_step (new_RateLimiter maxReq window t0) evs) \<le> maxReq
       \<and> requestCount (acquire l (now, wake)) =
           (let c = (if now - windowStart l \<ge> windowMs l then 0 else requestCount l)
            in if c < maxRequests l then c + 1 else 1)"
proof -
  have m: "1 \<le> maxRequests (new_RateLimiter maxReq window t0)" using assms by (simp add: new_ok)
  have a: "requestCount (foldl acquire (new_RateLimiter maxReq window t0) cs) \<le> maxReq"
    using foldl_acquire_ok [OF m new_ok(1), of cs] by (simp add: limiter_ok_def new_ok(2))
  have b: "requestCount (foldl limiter_step (new_RateLimiter maxReq window t0) evs) \<le> maxReq"
    using foldl_step_ok [OF m new_ok(1), of evs] by (simp add: limiter_ok_def new_ok(2))
  from a b acquire_count [of l now wake] show ?thesis by blast
qed

theorem rateLimiter_counter_bounded_witness:
  "(1::nat) \<le> 2
 \<and> requestCount (foldl acquire (new_RateLimiter 2 60000 0) [(0, 0), (10, 10), (20, 60000)]) = 1
 \<and> requestCount (foldl acquire (new_RateLimiter 2 60000 0) [(0, 0), (10, 10), (20, 60000)]) \<le> 2
 \<and> requestCount (foldl limiter_step (new_RateLimiter 2 60000 0)
        [Enter 0, Enter 10, Enter 20, Enter 30, Resume 60000, Resume 60000]) \<le> 2"
proof -
  have h: "(1::nat) \<le> 2" by simp
  have e: "requestCount (foldl acquire (new_RateLimiter 2 60000 0) [(0, 0), (10, 10), (20, 60000)]) = 1"
    by code_simp
  from h e rateLimiter_counter_bounded [OF h, of 60000 0 "[(0, 0), (10, 10), (20, 60000)]"
      "[Enter 0, Enter 10, Enter 20, Enter 30, Resume 60000, Resume 60000]"]
  show ?thesis by blast
qed

section \<open>Retry with backoff\<close>

lemma decisive_iff: "decisive fn k \<longleftrightarrow> \<not> fails_retryable fn k"
  by (simp add: decisive_def fails_retryable_def split: sum.splits)

lemma retry_loop_skip:
  assumes "attempt \<le> maxRetries config" "fails_retryable fn attempt"
  shows "\<exists>e. retry_loop fn config attempt lastError sl =
     retry_loop fn config (attempt + 1) e
       (if attempt < maxRetries config then sl @ [backoff_delay config attempt] else sl)"
  using assms
  by (subst retry_loop.simps) (auto simp: fails_retryable_def split: sum.splits)

lemma retry_loop_decisive:
  assumes "attempt \<le> maxRetries config" "decisive fn attempt"
  shows "retry_loop fn config attempt lastError sl =
     \<lparr>outcome = fn attempt, slept = sl, calls = attempt + 1\<rparr>"
  using assms
  by (subst retry_loop.simps) (auto simp: decisive_def split: sum.splits)

lemma retry_loop_done:
  assumes "\<not> attempt \<le> maxRetries config"
  shows "retry_loop fn config attempt lastError sl =
     \<lparr>outcome = Inl lastError, slept = sl, calls = attempt\<rparr>"
  using assms by (subst retry_loop.simps) simp

lemma retry_loop_first_decisive:
  assumes "k \<le> maxRetries config" "decisive fn k" "\<forall>j. a \<le> j \<and> j < k \<longrightarrow> fails_retryable fn j"
    "a \<le> k"
  shows "retry_loop fn config a lastError sl =
     \<lparr>outcome = fn k, slept = sl @ map (backoff_delay config) [a..<k], calls = k + 1\<rparr>"
  using assms
proof (induction "k - a" arbitrary: a lastError sl)
  case 0
  then have "a = k" by simp
  with 0 show ?case by (simp add: retry_loop_decisive)
next
  case (Suc n)
  then have lt: "a < k" by simp
  with Suc.prems have fr: "fails_retryable fn a" and le: "a \<le> maxRetries config" and lt': "a < maxRetries config"
    by auto
  from retry_loop_skip [OF le fr, of lastError sl] lt' obtain e where
    step: "retry_loop fn config a lastError sl =
       retry_loop fn config (a + 1) e (sl @ [backoff_delay config a])" by auto
  have "retry_loop fn config (a + 1) e (sl @ [backoff_delay config a]) =
     \<lparr>outcome = fn k, slept = (sl @ [backoff_delay config a]) @ map (backoff_delay config) [a + 1..<k],
      calls = k + 1\<rparr>"
    using Suc.hyps(2) Suc.prems lt by (intro Suc.hyps(1)) auto
  with step lt show ?case by (simp add: upt_conv_Cons)
qed

lemma retry_loop_exhausted:
  assumes "\<forall>j. a \<le> j \<and> j \<le> maxRetries config \<longrightarrow> fails_retryable fn j" "a \<le> maxRetries config"
  shows "retry_loop fn config a lastError sl =
     \<lparr>outcome = fn (maxRetries config),
      slept = sl @ map (backoff_delay config) [a..<maxRetries config],
      calls = maxRetries config + 1\<rparr>"
  using assms
proof (induction "maxRetries config - a" arbitrary: a lastError sl)
  case 0
  then have eq: "a = maxRetries config" by simp
  with 0 have fr: "fails_retryable fn a" by simp
  then obtain e where e: "fn a = Inl e" "\<not> non_retryable e"
    by (auto simp: fails_retryable_def split: sum.splits)
  have "retry_loop fn config a lastError sl = retry_loop fn config (a + 1) e sl"
    using e eq by (subst retry_loop.simps) simp
  also have "\<dots> = \<lparr>outcome = Inl e, slept = sl, calls = a + 1\<rparr>"
    using eq by (simp add: retry_loop_done)
  finally show ?case using e eq by simp
next
  case (Suc n)
  then have lt: "a < maxRetries config" by simp
  with Suc.prems have fr: "fails_retryable fn a" by auto
  from retry_loop_skip [of a config fn lastError sl] fr lt obtain e where
    step: "retry_loop fn config a lastError sl =
       retry_loop fn config (a + 1) e (sl @ [backoff_delay config a])" by auto
  have "retry_loop fn config (a + 1) e (sl @ [backoff_delay config a]) =
     \<lparr>outcome = fn (maxRetries config),
      slept = (sl @ [backoff_delay config a]) @ map (backoff_delay config) [a + 1..<maxRetries config],
      calls = maxRetries config + 1\<rparr>"
    using Suc.hyps(2) Suc.prems lt by (intro Suc.hyps(1)) auto
  with step lt show ?case by (simp add: upt_conv_Cons)
qed

lemma non_retryable_iff:
  "non_retryable e \<longleftrightarrow> response_status e \<in> {Some 404, Some 401, Some 403}"
  by (auto simp: non_retryable_def split: option.splits)

lemma first_decisive:
  assumes "\<exists>k \<le> n. decisive fn k"
  shows "\<exists>k \<le> n. decisive fn k \<and> (\<forall>j < k. fails_retryable fn j)"
proof -
  from assms obtain k0 where k0: "k0 \<le> n" "decisive fn k0" by blast
  define k where "k = (LEAST i. decisive fn i)"
  have dk: "decisive fn k" unfolding k_def using k0(2) by (rule LeastI)
  have "k \<le> k0" unfolding k_def using k0(2) by (rule Least_le)
  with k0(1) have "k \<le> n" by simp
  moreover have "fails_retryable fn j" if "j < k" for j
    using that not_less_Least [of j "decisive fn"] by (simp add: k_def decisive_iff)
  ultimately show ?thesis using dk by blast
qed

lemma retry_run_cases:
  "(\<exists>k \<le> maxRetries config. decisive fn k \<and> (\<forall>j < k. fails_retryable fn j)
      \<and> retryWithBackoff fn config =
          \<lparr>outcome = fn k, slept = map (backoff_delay config) [0..<k], calls = k + 1\<rparr>)
 \<or> ((\<forall>j \<le> maxRetries config. fails_retryable fn j)
      \<and> retryWithBackoff fn config =
          \<lparr>outcome = fn (maxRetries config),
           slept = map (backoff_delay config) [0..<maxRetries config],
           calls = maxRetries config + 1\<rparr>)"
proof (cases "\<exists>k \<le> maxRetries config. decisive fn k")
  case True
  from first_decisive [OF True] obtain k where
    k: "k \<le> maxRetries config" "decisive fn k" "\<forall>j < k. fails_retryable fn j" by blast
  have "retryWithBackoff fn config =
          \<lparr>outcome = fn k, slept = [] @ map (backoff_delay config) [0..<k], calls = k + 1\<rparr>"
    unfolding retryWithBackoff_def using k by (intro retry_loop_first_decisive) auto
  with k show ?thesis by auto
next
  case False
  then have all: "\<forall>j \<le> maxRetries config. fails_retryable fn j"
    by (simp add: decisive_iff)
  have "retryWithBackoff fn config =
          \<lparr>outcome = fn (maxRetries config),
           slept = [] @ map (backoff_delay config) [0..<maxRetries config],
           calls = maxRetries config + 1\<rparr>"
    unfolding retryWithBackoff_def using all by (intro retry_loop_exhausted) auto
  with all show ?thesis by auto
qed

lemma retry_calls_bound: "calls (retryWithBackoff fn config) \<le> maxRetries config + 1"
  using retry_run_cases [of config fn] by auto

lemma retry_slept:
  "slept (retryWithBackoff fn config) =
     map (backoff_delay config) [0..<calls (retryWithBackoff fn config) - 1]"
  using retry_run_cases [of config fn] by auto

lemma retry_non_retryable:
  assumes "k \<le> maxRetries config" "\<forall>j < k. fails_retryable fn j" "fn k = Inl e" "non_retryable e"
  shows "retryWithBackoff fn config =
          \<lparr>outcome = Inl e, slept = map (backoff_delay config) [0..<k], calls = k + 1\<rparr>"
proof -
  have d: "decisive fn k" using assms(3,4) by (simp add: decisive_def)
  have "retryWithBackoff fn config =
          \<lparr>outcome = fn k, slept = [] @ map (backoff_delay config) [0..<k], calls = k + 1\<rparr>"
    unfolding retryWithBackoff_def using assms(1,2) d by (intro retry_loop_first_decisive) auto
  with assms(3) show ?thesis by simp
qed

lemma retry_exhausted:
  assumes "\<forall>j \<le> maxRetries config. fails_retryable fn j"
  shows "retryWithBackoff fn config =
          \<lparr>outcome = fn (maxRetries config),
           slept = map (backoff_delay config) [0..<maxRetries config],
           calls = maxRetries config + 1\<rparr>"
proof -
  have "retryWithBackoff fn config =
          \<lparr>outcome = fn (maxRetries config),
           slept = [] @ map (backoff_delay config) [0..<maxRetries config],
           calls = maxRetries config + 1\<rparr>"
    unfolding retryWithBackoff_def using assms by (intro retry_loop_exhausted) auto
  then show ?thesis by simp
qed

text \<open>
  C5. For every operation and retry policy: \<open>retryWithBackoff\<close> calls the operation at
  most \<open>maxRetries + 1\<close> times; before each call after the first it has slept
  \<open>min (initialDelay * backoffMultiplier ^ i) maxDelay\<close>, \<open>i\<close> the index of the failed
  attempt; when attempt \<open>k\<close> is the first to fail with status 404, 401 or 403 it throws
  that error at once, after \<open>k + 1\<close> calls; and when every attempt fails with a retried
  error it throws the error of the last attempt, after \<open>maxRetries + 1\<close> calls.
\<close>

theorem retryWithBackoff_policy:
  "calls (retryWithBackoff fn config) \<le> maxRetries config + 1
 \<and> slept (retryWithBackoff fn config) =
     map (\<lambda>i. min (initialDelay config * backoffMultiplier config ^ i) (maxDelay config))
       [0..<calls (retryWithBackoff fn config) - 1]
 \<and> (k \<le> maxRetries config \<and> (\<forall>j < k. fails_retryable fn j) \<and> fn k = Inl e
      \<and> response_status e \<in> {Some 404, Some 401, Some 403}
     \<longrightarrow> outcome (retryWithBackoff fn config) = Inl e \<and> calls (retryWithBackoff fn config) = k + 1)
 \<and> ((\<forall>j \<le> maxRetries config. fails_retryable fn j)
     \<longrightarrow> outcome (retryWithBackoff fn config) = fn (maxRetries config)
       \<and> (\<exists>err. fn (maxRetries config) = Inl err)
       \<and> calls (retryWithBackoff fn config) = maxRetries config + 1)"
proof (intro conjI impI)
  show "calls (retryWithBackoff fn config) \<le> maxRetries config + 1" by (rule retry_calls_bound)
  show "slept (retryWithBackoff fn config) =
     map (\<lambda>i. min (initialDelay config * backoffMultiplier config ^ i) (maxDelay config))
       [0..<calls (retryWithBackoff fn config) - 1]"
    using retry_slept [of fn config] by (simp add: backoff_delay_def [abs_def])
next
  assume a: "k \<le> maxRetries config \<and> (\<forall>j < k. fails_retryable fn j) \<and> fn k = Inl e
      \<and> response_status e \<in> {Some 404, Some 401, Some 403}"
  then have "non_retryable e" by (simp only: non_retryable_iff)
  with a have r: "retryWithBackoff fn config =
          \<lparr>outcome = Inl e, slept = map (backoff_delay config) [0..<k], calls = k + 1\<rparr>"
    by (intro retry_non_retryable) auto
  show "outcome (retryWithBackoff fn config) = Inl e" by (simp add: r)
  show "calls (retryWithBackoff fn config) = k + 1" by (simp add: r)
next
  assume a: "\<forall>j \<le> maxRetries config. fails_retryable fn j"
  note r = retry_exhausted [OF a]
  show "outcome (retryWithBackoff fn config) = fn (maxRetries config)" by (simp add: r)
  show "calls (retryWithBackoff fn config) = maxRetries config + 1" by (simp add: r)
  from a have "fails_retryable fn (maxRetries config)" by simp
  then show "\<exists>err. fn (maxRetries config) = Inl err"
    by (auto simp: fails_retryable_def split: sum.splits)
qed

theorem retryWithBackoff_policy_witness:
  "outcome (retryWithBackoff fails_500_then_404 config_retry) = Inl (http_error 404)
 \<and> calls (retryWithBackoff fails_500_then_404 config_retry) = 2
 \<and> slept (retryWithBackoff fails_500_then_404 config_retry) = [1000]
 \<and> outcome (retryWithBackoff fails_500_always config_retry) = Inl (http_error 500)
 \<and> calls (retryWithBackoff fails_500_always config_retry) = 4
 \<and> slept (retryWithBackoff fails_500_always config_retry) = [1000, 2000, 4000]"
proof -
  have cfg: "maxRetries config_retry = 3" "initialDelay config_retry = 1000"
    "maxDelay config_retry = 10000" "backoffMultiplier config_retry = 2"
    by (simp_all add: config_retry_def)
  have h1: "(1::nat) \<le> maxRetries config_retry \<and> (\<forall>j < 1. fails_retryable fails_500_then_404 j)
      \<and> fails_500_then_404 1 = Inl (http_error 404)
      \<and> response_status (http_error 404) \<in> {Some 404, Some 401, Some 403}"
    by (simp add: cfg fails_retryable_def fails_500_then_404_def http_error_def
        non_retryable_def)
  have h2: "\<forall>j \<le> maxRetries config_retry. fails_retryable fails_500_always j"
    by (simp add: fails_retryable_def fails_500_always_def http_error_def non_retryable_def)
  note t1 = retryWithBackoff_policy [of fails_500_then_404 config_retry 1 "http_error 404"]
  note t2 = retryWithBackoff_policy [of fails_500_always config_retry 0 "http_error 404"]
  from t1 h1 have a: "outcome (retryWithBackoff fails_500_then_404 config_retry) = Inl (http_error 404)"
    and b: "calls (retryWithBackoff fails_500_then_404 config_retry) = 2" by simp_all
  from t1 have "slept (retryWithBackoff fails_500_then_404 config_retry) =
     map (\<lambda>i. min (initialDelay config_retry * backoffMultiplier config_retry ^ i) (maxDelay config_retry))
       [0..<calls (retryWithBackoff fails_500_then_404 config_retry) - 1]" by blast
  then have c: "slept (retryWithBackoff fails_500_then_404 config_retry) = [1000]"
    by (simp add: b cfg)
  from t2 h2 have d: "outcome (retryWithBackoff fails_500_always config_retry) = Inl (http_error 500)"
    and e: "calls (retryWithBackoff fails_500_always config_retry) = 4"
    by (simp_all add: fails_500_always_def cfg)
  from t2 have "slept (retryWithBackoff fails_500_always config_retry) =
     map (\<lambda>i. min (initialDelay config_retry * backoffMultiplier config_retry ^ i) (maxDelay config_retry))
       [0..<calls (retryWithBackoff fails_500_always config_retry) - 1]" by blast
  then have f: "slept (retryWithBackoff fails_500_always config_retry) = [1000, 2000, 4000]"
    by (simp add: e cfg upt_rec)
  from a b c d e f show ?thesis by blast
qed

section \<open>The cache key\<close>

lemma of_char_digit_char: "d < 10 \<Longrightarrow> (of_char (digit_char d) :: nat) = 48 + d"
  by (simp add: digit_char_def)

lemma is_digit_digit_char: "d < 10 \<Longrightarrow> is_digit (digit_char d)"
  by (simp add: is_digit_def of_char_digit_char)

lemma digit_val_digit_char: "d < 10 \<Longrightarrow> digit_val 10 (of_char (digit_char d)) = Some d"
  by (simp add: digit_val_def of_char_digit_char)

lemma show_nat_digits: "\<forall>c \<in> set (show_nat n). is_digit c"
proof (induction n rule: show_nat.induct)
  case (1 n)
  show ?case
  proof (cases "n < 10")
    case True
    then show ?thesis by (subst show_nat.simps) (simp add: is_digit_digit_char)
  next
    case False
    with 1 show ?thesis by (subst show_nat.simps) (simp add: is_digit_digit_char)
  qed
qed

lemma show_nat_nonempty: "show_nat n \<noteq> []"
  by (subst show_nat.simps) simp

lemma digits_value_snoc:
  "digits_value r (bs @ [b]) = digits_value r bs * r + the (digit_val r b)"
  by (simp add: digits_value_def)

lemma digits_value_show_nat: "digits_value 10 (map of_char (show_nat n)) = n"
proof (induction n rule: show_nat.induct)
  case (1 n)
  show ?case
  proof (cases "n < 10")
    case True
    then show ?thesis
      by (subst show_nat.simps) (simp add: digits_value_def digit_val_digit_char)
  next
    case False
    with 1 have "digits_value 10 (map of_char (show_nat (n div 10))) = n div 10" by simp
    with False show ?thesis
      by (subst show_nat.simps) (simp add: digits_value_snoc digit_val_digit_char)
  qed
qed

lemma show_nat_inj: "show_nat a = show_nat b \<Longrightarrow> a = b"
proof -
  assume "show_nat a = show_nat b"
  then have "digits_value 10 (map of_char (show_nat a)) = digits_value 10 (map of_char (show_nat b))"
    by (rule arg_cong)
  then show "a = b" by (simp only: digits_value_show_nat)
qed

lemma not_digit_minus: "\<not> is_digit CHR ''-''" and not_digit_colon: "\<not> is_digit CHR '':''"
  by (simp_all add: is_digit_def)

lemma show_nat_no_minus: "show_nat n \<noteq> CHR ''-'' # s"
  using show_nat_digits [of n] not_digit_minus by (cases "show_nat n") auto

lemma numberToString_inj: "numberToString a = numberToString b \<Longrightarrow> a = b"
  using show_nat_no_minus show_nat_no_minus [symmetric]
  by (auto simp: numberToString_def dest!: show_nat_inj split: if_splits)

lemma numberToString_no_colon: "CHR '':'' \<notin> set (numberToString a)"
  using show_nat_digits not_digit_colon not_digit_minus
  by (auto simp: numberToString_def)

lemma split_at_sep:
  "c \<notin> set a \<Longrightarrow> c \<notin> set b \<Longrightarrow> a @ c # r = b @ c # s \<Longrightarrow> a = b \<and> r = s"
proof (induction a arbitrary: b)
  case Nil
  then show ?case by (cases b) auto
next
  case (Cons x a)
  then show ?case by (cases b) auto
qed

lemma sort_by_string_inj: "sort_by_string a = sort_by_string b \<Longrightarrow> a = b"
  by (cases a; cases b) (simp_all add: sort_by_string_def)

lemma sort_by_string_no_colon: "CHR '':'' \<notin> set (sort_by_string a)"
  by (cases a) (simp_all add: sort_by_string_def)

lemma sort_order_string_inj: "sort_order_string a = sort_order_string b \<Longrightarrow> a = b"
  by (cases a; cases b) (simp_all add: sort_order_string_def)

lemma sort_order_string_no_colon: "CHR '':'' \<notin> set (sort_order_string a)"
  by (cases a) (simp_all add: sort_order_string_def)

lemma generateCacheKey_key_of: "generateCacheKey options = key_of (effective_options options)"
  by (simp add: generateCacheKey_def key_of_def effective_options_def CACHE_KEY_PREFIX_def)

lemma key_of_inj: "key_of a = key_of b \<Longrightarrow> a = b"
proof -
  obtain sb so mv ml where a: "a = (sb, so, mv, ml)" by (cases a) auto
  obtain sb' so' mv' ml' where b: "b = (sb', so', mv', ml')" by (cases b) auto
  assume "key_of a = key_of b"
  then have 1: "sort_by_string sb @ CHR '':'' # (sort_order_string so
         @ CHR '':'' # numberToString mv @ CHR '':'' # numberToString ml)
      = sort_by_string sb' @ CHR '':'' # (sort_order_string so'
         @ CHR '':'' # numberToString mv' @ CHR '':'' # numberToString ml')"
    by (simp add: key_of_def a b)
  from split_at_sep [OF sort_by_string_no_colon sort_by_string_no_colon 1]
  have sb: "sort_by_string sb = sort_by_string sb'"
    and 2: "sort_order_string so @ CHR '':'' # (numberToString mv @ CHR '':'' # numberToString ml)
      = sort_order_string so' @ CHR '':'' # (numberToString mv' @ CHR '':'' # numberToString ml')"
    by simp_all
  from split_at_sep [OF sort_order_string_no_colon sort_order_string_no_colon 2]
  have so: "sort_order_string so = sort_order_string so'"
    and 3: "numberToString mv @ CHR '':'' # numberToString ml
      = numberToString mv' @ CHR '':'' # numberToString ml'"
    by simp_all
  from split_at_sep [OF numberToString_no_colon numberToString_no_colon 3]
  have mv: "numberToString mv = numberToString mv'" and ml: "numberToString ml = numberToString ml'"
    by simp_all
  from sb so mv ml show "a = b"
    by (simp add: a b sort_by_string_inj sort_order_string_inj numberToString_inj)
qed

text \<open>
  C4, as the code has it. The cache key does not depend on \<open>limit\<close> and \<open>cursor\<close>. Two
  option sets have the same key exactly when they agree on the four printed values after
  the defaults are filled in: an absent \<open>sort_by\<close> is \<open>volume\<close>, an absent \<open>sort_order\<close> is
  \<open>desc\<close>, an absent or zero threshold is 0. So option sets identical on the four fields
  have identical keys, and keys differ exactly when one of the four effective values
  differs.
\<close>

theorem generateCacheKey_effective:
  "generateCacheKey (options\<lparr>limit := l, cursor := c\<rparr>) = generateCacheKey options
 \<and> (generateCacheKey oa = generateCacheKey ob \<longleftrightarrow> effective_options oa = effective_options ob)
 \<and> (sort_by oa = sort_by ob \<and> sort_order oa = sort_order ob \<and> min_volume oa = min_volume ob
      \<and> min_liquidity oa = min_liquidity ob \<longrightarrow> generateCacheKey oa = generateCacheKey ob)"
proof (intro conjI impI)
  show "generateCacheKey (options\<lparr>limit := l, cursor := c\<rparr>) = generateCacheKey options"
    by (simp add: generateCacheKey_def)
  show "generateCacheKey oa = generateCacheKey ob \<longleftrightarrow> effective_options oa = effective_options ob"
    unfolding generateCacheKey_key_of
  proof
    assume "key_of (effective_options oa) = key_of (effective_options ob)"
    then show "effective_options oa = effective_options ob" by (rule key_of_inj)
  next
    assume "effective_options oa = effective_options ob"
    then show "key_of (effective_options oa) = key_of (effective_options ob)" by simp
  qed
  assume "sort_by oa = sort_by ob \<and> sort_order oa = sort_order ob \<and> min_volume oa = min_volume ob
      \<and> min_liquidity oa = min_liquidity ob"
  then show "generateCacheKey oa = generateCacheKey ob"
    by (simp add: generateCacheKey_def)
qed

theorem generateCacheKey_effective_witness:
  "sort_by (no_options\<lparr>limit := Some 10\<rparr>) = sort_by (no_options\<lparr>cursor := Some ''MQ==''\<rparr>)
 \<and> sort_order (no_options\<lparr>limit := Some 10\<rparr>) = sort_order (no_options\<lparr>cursor := Some ''MQ==''\<rparr>)
 \<and> min_volume (no_options\<lparr>limit := Some 10\<rparr>) = min_volume (no_options\<lparr>cursor := Some ''MQ==''\<rparr>)
 \<and> min_liquidity (no_options\<lparr>limit := Some 10\<rparr>)
     = min_liquidity (no_options\<lparr>cursor := Some ''MQ==''\<rparr>)
 \<and> generateCacheKey (no_options\<lparr>limit := Some 10\<rparr>)
     = generateCacheKey (no_options\<lparr>cursor := Some ''MQ==''\<rparr>)
 \<and> generateCacheKey (no_options\<lparr>sort_by := Some Volume\<rparr>)
     \<noteq> generateCacheKey (no_options\<lparr>sort_by := Some MarketCap\<rparr>)"
proof -
  have h: "sort_by (no_options\<lparr>limit := Some 10\<rparr>) = sort_by (no_options\<lparr>cursor := Some ''MQ==''\<rparr>)
     \<and> sort_order (no_options\<lparr>limit := Some 10\<rparr>) = sort_order (no_options\<lparr>cursor := Some ''MQ==''\<rparr>)
     \<and> min_volume (no_options\<lparr>limit := Some 10\<rparr>) = min_volume (no_options\<lparr>cursor := Some ''MQ==''\<rparr>)
     \<and> min_liquidity (no_options\<lparr>limit := Some 10\<rparr>)
         = min_liquidity (no_options\<lparr>cursor := Some ''MQ==''\<rparr>)"
    by simp
  have d: "effective_options (no_options\<lparr>sort_by := Some Volume\<rparr>)
      \<noteq> effective_options (no_options\<lparr>sort_by := Some MarketCap\<rparr>)"
    by (simp add: effective_options_def)
  from generateCacheKey_effective [where oa = "no_options\<lparr>limit := Some 10\<rparr>"
      and ob = "no_options\<lparr>cursor := Some ''MQ==''\<rparr>"] h
  have k: "generateCacheKey (no_options\<lparr>limit := Some 10\<rparr>)
     = generateCacheKey (no_options\<lparr>cursor := Some ''MQ==''\<rparr>)" by blast
  from generateCacheKey_effective [where oa = "no_options\<lparr>sort_by := Some Volume\<rparr>"
      and ob = "no_options\<lparr>sort_by := Some MarketCap\<rparr>"] d
  have n: "generateCacheKey (no_options\<lparr>sort_by := Some Volume\<rparr>)
     \<noteq> generateCacheKey (no_options\<lparr>sort_by := Some MarketCap\<rparr>)" by blast
  from h k n show ?thesis by blast
qed

text \<open>
  As the specification states it, the property fails where only a default is written out: an absent \<open>sort_by\<close>
  and \<open>volume\<close>, or an absent threshold and 0, differ as fields and print the same key.
\<close>

theorem generateCacheKey_default_collision:
  "sort_by no_options \<noteq> sort_by (no_options\<lparr>sort_by := Some Volume\<rparr>)
 \<and> generateCacheKey no_options = generateCacheKey (no_options\<lparr>sort_by := Some Volume\<rparr>)
 \<and> min_volume no_options \<noteq> min_volume (no_options\<lparr>min_volume := Some 0\<rparr>)
 \<and> generateCacheKey no_options = generateCacheKey (no_options\<lparr>min_volume := Some 0\<rparr>)"
  by (simp add: no_options_def generateCacheKey_def or_default_def truthy_int_def)

section \<open>Pagination\<close>



lemma effective_limit_value:
  "effective_limit options =
     (case limit options of None \<Rightarrow> 20 | Some n \<Rightarrow> if n = 0 then 20 else min n 100)"
  by (simp add: effective_limit_def or_default_def truthy_int_def defaultLimit_def maxLimit_def
      split: option.splits)


lemma tokens_applyPagination:
  "tokens (applyPagination toks options now) =
     js_slice toks (start_index options)
       (map_option (\<lambda>s. s + effective_limit options) (start_index options))"
  by (simp add: applyPagination_def Let_def)

lemma total_count_applyPagination: "total_count (applyPagination toks options now) = length toks"
  by (simp add: applyPagination_def Let_def)

lemma next_cursor_applyPagination:
  "next_cursor (applyPagination toks options now) =
     (case map_option (\<lambda>s. s + effective_limit options) (start_index options) of
        None \<Rightarrow> None
      | Some e \<Rightarrow> if e < int (length toks) then Some (base64_encode (numberToString e)) else None)"
  by (simp add: applyPagination_def Let_def)


lemma encode_offset_1: "base64_encode (numberToString 1) = ''MQ==''"
  by code_simp

lemma decode_offset_1: "decode_cursor ''MQ=='' = Inr (Some 1)"
  by code_simp

lemma decode_abc: "decode_cursor ''YWJj'' = Inr None"
  by code_simp

lemma start_index_no_cursor: "cursor options = None \<Longrightarrow> start_index options = Some 0"
  by (simp add: start_index_def truthy_opt_def)

lemma start_index_cursor:
  "cursor options = Some c \<Longrightarrow> c \<noteq> [] \<Longrightarrow>
     start_index options = (case decode_cursor c of Inr n \<Rightarrow> n | Inl e \<Rightarrow> Some 0)"
  by (simp add: start_index_def truthy_opt_def truthy_str_def)

lemma effective_limit_1: "limit options = Some 1 \<Longrightarrow> effective_limit options = 1"
  by (simp add: effective_limit_value)

lemma slice_first: "js_slice [x, y] (Some 0) (Some 1) = [x]"
  by (simp add: js_slice_def slice_index_def)

lemma slice_second: "js_slice [x, y] (Some 1) (Some 2) = [y]"
  by (simp add: js_slice_def slice_index_def)

lemma slice_nan: "js_slice xs None None = []"
  by (simp add: js_slice_def slice_index_def)

lemma first_page:
  "applyPagination [x, y] (options\<lparr>limit := Some 1, cursor := None\<rparr>) now
     = \<lparr>tokens = [x], next_cursor = Some ''MQ=='', total_count = 2, timestamp = now\<rparr>"
  by (simp add: applyPagination_def Let_def start_index_no_cursor effective_limit_1 slice_first
      encode_offset_1)

lemma second_page:
  "applyPagination [x, y] (options\<lparr>limit := Some 1, cursor := Some ''MQ==''\<rparr>) now
     = \<lparr>tokens = [y], next_cursor = None, total_count = 2, timestamp = now\<rparr>"
  by (simp add: applyPagination_def Let_def start_index_cursor effective_limit_1 slice_second
      decode_offset_1)

text \<open>
  C8. For every collection of two records, \<open>limit = 1\<close> and no cursor give the first
  record and a next cursor; that cursor with \<open>limit = 1\<close> gives the second record and no
  further cursor; both pages report \<open>total_count = 2\<close>.
\<close>

theorem pagination_round_trip:
  "tokens (applyPagination [x, y] (options\<lparr>limit := Some 1, cursor := None\<rparr>) now) = [x]
 \<and> next_cursor (applyPagination [x, y] (options\<lparr>limit := Some 1, cursor := None\<rparr>) now) \<noteq> None
 \<and> total_count (applyPagination [x, y] (options\<lparr>limit := Some 1, cursor := None\<rparr>) now) = 2
 \<and> tokens (applyPagination [x, y]
       (options\<lparr>limit := Some 1,
          cursor := next_cursor (applyPagination [x, y] (options\<lparr>limit := Some 1, cursor := None\<rparr>) now)\<rparr>)
       later) = [y]
 \<and> next_cursor (applyPagination [x, y]
       (options\<lparr>limit := Some 1,
          cursor := next_cursor (applyPagination [x, y] (options\<lparr>limit := Some 1, cursor := None\<rparr>) now)\<rparr>)
       later) = None
 \<and> total_count (applyPagination [x, y]
       (options\<lparr>limit := Some 1,
          cursor := next_cursor (applyPagination [x, y] (options\<lparr>limit := Some 1, cursor := None\<rparr>) now)\<rparr>)
       later) = 2"
  unfolding first_page by (simp add: second_page)

text \<open>
  C2, what the code does. A non-empty cursor that does not decode to a number leaves
  \<open>startIndex\<close> at \<open>NaN\<close>: pagination does not fail, but the page is empty and has no
  next cursor, whatever the collection; it is not the page at offset 0.
\<close>

theorem applyPagination_undecodable_cursor:
  "cursor options = Some c \<and> c \<noteq> [] \<and> decode_cursor c = Inr None
   \<longrightarrow> tokens (applyPagination toks options now) = []
     \<and> next_cursor (applyPagination toks options now) = None
     \<and> total_count (applyPagination toks options now) = length toks"
  by (simp add: applyPagination_def Let_def start_index_cursor slice_nan)

theorem applyPagination_undecodable_cursor_witness:
  "cursor (no_options\<lparr>cursor := Some ''YWJj''\<rparr>) = Some ''YWJj'' \<and> ''YWJj'' \<noteq> []
 \<and> decode_cursor ''YWJj'' = Inr None
 \<and> tokens (applyPagination [tok ''a1'' ''A'' 1 5, tok ''b2'' ''B'' 2 7]
       (no_options\<lparr>cursor := Some ''YWJj''\<rparr>) 0) = []
 \<and> next_cursor (applyPagination [tok ''a1'' ''A'' 1 5, tok ''b2'' ''B'' 2 7]
       (no_options\<lparr>cursor := Some ''YWJj''\<rparr>) 0) = None
 \<and> tokens (applyPagination [tok ''a1'' ''A'' 1 5, tok ''b2'' ''B'' 2 7] no_options 0)
     = [tok ''a1'' ''A'' 1 5, tok ''b2'' ''B'' 2 7]"
proof -
  have h: "cursor (no_options\<lparr>cursor := Some ''YWJj''\<rparr>) = Some ''YWJj'' \<and> ''YWJj'' \<noteq> []
     \<and> decode_cursor ''YWJj'' = Inr None"
    by (simp add: decode_abc)
  have z: "tokens (applyPagination [tok ''a1'' ''A'' 1 5, tok ''b2'' ''B'' 2 7] no_options 0)
     = [tok ''a1'' ''A'' 1 5, tok ''b2'' ''B'' 2 7]"
    by (simp add: tokens_applyPagination start_index_no_cursor no_options_def effective_limit_value
        js_slice_def slice_index_def)
  from h z applyPagination_undecodable_cursor [of "no_options\<lparr>cursor := Some ''YWJj''\<rparr>" "''YWJj''"
      "[tok ''a1'' ''A'' 1 5, tok ''b2'' ''B'' 2 7]" 0]
  show ?thesis by blast
qed



section \<open>Aggregation with a failing adapter\<close>

lemma cacheService_set_ok: "cacheService_set w = Inr ()"
  by (simp add: cacheService_set_def split: sum.splits)

lemma aggregate_miss:
  assumes "cacheService_get (redis_read env) = Inr None"
  shows "aggregateTokens env options =
     Inr (pipeline
       ((case dexScreener_getTrendingTokens env of Inl e \<Rightarrow> [] | Inr v \<Rightarrow> v) @
        (case jupiter_getAllTokens env of Inl e \<Rightarrow> [] | Inr v \<Rightarrow> v)) options (date_now env))"
  using assms
  by (simp add: aggregateTokens_def Let_def settle_def cacheService_set_ok pipeline_def
      split: sum.splits)

text \<open>
  C6. When the cache has no entry for the key (or cannot be read) and one adapter's fetch
  is rejected while the other is fulfilled with the records \<open>ts\<close>, \<open>aggregateTokens\<close>
  does not raise: it returns the merged, filtered, sorted and paginated result built from
  \<open>ts\<close> alone, whether or not the cache write succeeds.
\<close>

theorem aggregateTokens_one_adapter_down:
  "cacheService_get (redis_read env) = Inr None
   \<and> ((dexScreener_getTrendingTokens env = Inl e \<and> jupiter_getAllTokens env = Inr ts)
      \<or> (dexScreener_getTrendingTokens env = Inr ts \<and> jupiter_getAllTokens env = Inl e))
   \<longrightarrow> aggregateTokens env options =
       Inr (applyPagination (applySort (applyFilters (mergeTokens ts) options) options) options
             (date_now env))"
  by (auto simp: aggregate_miss pipeline_def)

lemma aggregate_dex_down: "aggregateTokens env_dex_down no_options =
      Inr \<lparr>tokens = [tok ''b2'' ''B'' 2 1000, tok ''a1'' ''A'' 1 500], next_cursor = None,
           total_count = 2, timestamp = 1700000000000\<rparr>"
  by code_simp

theorem aggregateTokens_one_adapter_down_witness:
  "cacheService_get (redis_read env_dex_down) = Inr None
 \<and> dexScreener_getTrendingTokens env_dex_down = Inl (http_error 500)
 \<and> jupiter_getAllTokens env_dex_down
     = Inr [tok ''a1'' ''A'' 1 500, tok ''b2'' ''B'' 2 1000, tok ''A1'' ''C'' 3 20]
 \<and> aggregateTokens env_dex_down no_options =
      Inr (applyPagination (applySort (applyFilters (mergeTokens
         [tok ''a1'' ''A'' 1 500, tok ''b2'' ''B'' 2 1000, tok ''A1'' ''C'' 3 20])
         no_options) no_options) no_options 1700000000000)
 \<and> aggregateTokens env_dex_down no_options =
      Inr \<lparr>tokens = [tok ''b2'' ''B'' 2 1000, tok ''a1'' ''A'' 1 500], next_cursor = None,
           total_count = 2, timestamp = 1700000000000\<rparr>"
proof -
  have h: "cacheService_get (redis_read env_dex_down) = Inr None
     \<and> dexScreener_getTrendingTokens env_dex_down = Inl (http_error 500)
     \<and> jupiter_getAllTokens env_dex_down
         = Inr [tok ''a1'' ''A'' 1 500, tok ''b2'' ''B'' 2 1000, tok ''A1'' ''C'' 3 20]"
    by (simp add: env_dex_down_def cacheService_get_def)
  have d: "date_now env_dex_down = 1700000000000" by (simp add: env_dex_down_def)
  from h aggregateTokens_one_adapter_down [of env_dex_down "http_error 500"
      "[tok ''a1'' ''A'' 1 500, tok ''b2'' ''B'' 2 1000, tok ''A1'' ''C'' 3 20]" no_options]
  have r: "aggregateTokens env_dex_down no_options =
      Inr (applyPagination (applySort (applyFilters (mergeTokens
         [tok ''a1'' ''A'' 1 500, tok ''b2'' ''B'' 2 1000, tok ''A1'' ''C'' 3 20])
         no_options) no_options) no_options (date_now env_dex_down))" by blast
  from h r aggregate_dex_down show ?thesis unfolding d by blast
qed

section \<open>The price-update batch of a tick\<close>

lemma updates_scan_step:
  "updates (scan_step prev acc entry) =
     (if price_moved prev entry then updates acc @ [snd entry] else updates acc)"
  by (simp add: scan_step_def price_moved_def Let_def split: option.splits)

lemma updates_scan:
  "updates (foldl (scan_step prev) acc entries) =
     updates acc @ map snd (filter (price_moved prev) entries)"
  by (induction entries arbitrary: acc) (simp_all add: updates_scan_step)

lemma updates_checkForUpdates:
  "updates (fst (checkForUpdates prev (Inr data))) =
     map snd (filter (price_moved prev) (currentTokens_of (tokens data)))"
  by (simp add: checkForUpdates_def Let_def updates_scan)

lemma keyed_set: "keyed m \<Longrightarrow> keyed (map_set (token_address t) t m)"
  unfolding keyed_def map_set_def
  by (auto simp: distinct_update set_update_distinct split: if_splits)

lemma keyed_foldl:
  "keyed m \<Longrightarrow> keyed (foldl (\<lambda>m t. map_set (token_address t) t m) m toks)"
  by (induction toks arbitrary: m) (simp_all add: keyed_set)

lemma keyed_currentTokens: "keyed (currentTokens_of toks)"
  unfolding currentTokens_of_def by (rule keyed_foldl) (simp add: keyed_def)

lemma in_updates_iff:
  assumes "map_get (currentTokens_of (tokens data)) a = Some cur" "map_get prev a = Some p"
  shows "cur \<in> set (updates (fst (checkForUpdates prev (Inr data)))) \<longleftrightarrow> js_gt (priceChange cur p) 1"
proof -
  let ?m = "currentTokens_of (tokens data)"
  have k: "keyed ?m" by (rule keyed_currentTokens)
  from assms(1) have mem: "(a, cur) \<in> set ?m" by (simp add: map_get_def map_of_SomeD)
  with k have a: "a = token_address cur" by (auto simp: keyed_def)
  have pm: "price_moved prev (a, cur) \<longleftrightarrow> js_gt (priceChange cur p) 1"
    using assms(2) by (simp add: price_moved_def)
  show ?thesis
  proof
    assume "cur \<in> set (updates (fst (checkForUpdates prev (Inr data))))"
    then obtain k' where e: "(k', cur) \<in> set ?m" "price_moved prev (k', cur)"
      by (auto simp: updates_checkForUpdates)
    with k have "k' = token_address cur" by (auto simp: keyed_def)
    with a e(2) pm show "js_gt (priceChange cur p) 1" by simp
  next
    assume "js_gt (priceChange cur p) 1"
    with pm mem show "cur \<in> set (updates (fst (checkForUpdates prev (Inr data))))"
      by (force simp: updates_checkForUpdates)
  qed
qed

lemma priceChange_gt_1:
  "js_gt (priceChange cur p) 1 \<longleftrightarrow>
     (if price_sol p = 0 then price_sol cur \<noteq> 0
      else \<bar>(price_sol cur - price_sol p) / price_sol p * 100\<bar> > 1)"
  by (simp add: priceChange_def js_gt_def js_abs_def js_times100_def js_div_def)

lemma spec_gt_1:
  "js_gt (spec_priceDeltaPct cur p) 1 \<longleftrightarrow>
     (if price_sol p = 0 then price_sol cur \<noteq> 0
      else \<bar>price_sol cur - price_sol p\<bar> / price_sol p * 100 > 1)"
  by (simp add: spec_priceDeltaPct_def js_gt_def js_times100_def js_div_def)

lemma spec_agrees_nonneg:
  assumes "0 \<le> price_sol p"
  shows "js_gt (spec_priceDeltaPct cur p) 1 \<longleftrightarrow> js_gt (priceChange cur p) 1"
proof (cases "price_sol p = 0")
  case True
  then show ?thesis by (simp add: spec_gt_1 priceChange_gt_1)
next
  case False
  with assms have "\<bar>price_sol p\<bar> = price_sol p" by simp
  moreover have "\<bar>(price_sol cur - price_sol p) / price_sol p * 100\<bar>
      = \<bar>price_sol cur - price_sol p\<bar> / \<bar>price_sol p\<bar> * \<bar>100\<bar>"
    by (simp only: abs_mult abs_divide)
  moreover have "\<bar>100::real\<bar> = 100" by simp
  ultimately have "\<bar>(price_sol cur - price_sol p) / price_sol p * 100\<bar>
      = \<bar>price_sol cur - price_sol p\<bar> / price_sol p * 100"
    by (simp only:)
  with False show ?thesis by (simp only: spec_gt_1 priceChange_gt_1 if_False)
qed

text \<open>
  C7, as the code has it. On a tick with a fresh aggregate, a token whose address is in
  both the new and the previous snapshot is in the price-update batch exactly when
  \<open>|(new.price - prev.price) / prev.price * 100| > 1\<close>, the absolute value taken of the
  whole quotient; with \<open>prev.price = 0\<close> the quotient is infinite or \<open>NaN\<close> and the token is
  in the batch exactly when \<open>new.price\<close> is not 0. For \<open>prev.price \<ge> 0\<close> this is the
  specification's \<open>|new.price - prev.price| / prev.price * 100 > 1\<close>. A move from 1.0 to
  1.02 is in the batch, a move from 1.0 to 1.005 is not.
\<close>

theorem price_update_batch:
  "map_get (currentTokens_of (tokens data)) a = Some cur \<and> map_get prev a = Some p
   \<longrightarrow> (cur \<in> set (updates (fst (checkForUpdates prev (Inr data))))
          \<longleftrightarrow> (if price_sol p = 0 then price_sol cur \<noteq> 0
               else \<bar>(price_sol cur - price_sol p) / price_sol p * 100\<bar> > 1))
     \<and> (0 \<le> price_sol p \<longrightarrow>
          (cur \<in> set (updates (fst (checkForUpdates prev (Inr data))))
             \<longleftrightarrow> js_gt (spec_priceDeltaPct cur p) 1))
     \<and> (price_sol p = 1 \<and> price_sol cur = 1.02 \<longrightarrow>
          cur \<in> set (updates (fst (checkForUpdates prev (Inr data)))))
     \<and> (price_sol p = 1 \<and> price_sol cur = 1.005 \<longrightarrow>
          cur \<notin> set (updates (fst (checkForUpdates prev (Inr data)))))"
proof (intro impI)
  assume h: "map_get (currentTokens_of (tokens data)) a = Some cur \<and> map_get prev a = Some p"
  then have i: "cur \<in> set (updates (fst (checkForUpdates prev (Inr data)))) \<longleftrightarrow> js_gt (priceChange cur p) 1"
    by (intro in_updates_iff) auto
  show "(cur \<in> set (updates (fst (checkForUpdates prev (Inr data))))
          \<longleftrightarrow> (if price_sol p = 0 then price_sol cur \<noteq> 0
               else \<bar>(price_sol cur - price_sol p) / price_sol p * 100\<bar> > 1))
     \<and> (0 \<le> price_sol p \<longrightarrow>
          (cur \<in> set (updates (fst (checkForUpdates prev (Inr data))))
             \<longleftrightarrow> js_gt (spec_priceDeltaPct cur p) 1))
     \<and> (price_sol p = 1 \<and> price_sol cur = 1.02 \<longrightarrow>
          cur \<in> set (updates (fst (checkForUpdates prev (Inr data)))))
     \<and> (price_sol p = 1 \<and> price_sol cur = 1.005 \<longrightarrow>
          cur \<notin> set (updates (fst (checkForUpdates prev (Inr data)))))"
    unfolding i
  proof (intro conjI impI)
    show "js_gt (priceChange cur p) 1 \<longleftrightarrow> (if price_sol p = 0 then price_sol cur \<noteq> 0
               else \<bar>(price_sol cur - price_sol p) / price_sol p * 100\<bar> > 1)"
      by (rule priceChange_gt_1)
    show "js_gt (priceChange cur p) 1 \<longleftrightarrow> js_gt (spec_priceDeltaPct cur p) 1" if "0 \<le> price_sol p"
      using spec_agrees_nonneg [OF that] by simp
    show "js_gt (priceChange cur p) 1" if "price_sol p = 1 \<and> price_sol cur = 1.02"
      using that by (simp add: priceChange_gt_1)
    show "\<not> js_gt (priceChange cur p) 1" if "price_sol p = 1 \<and> price_sol cur = 1.005"
      using that by (simp add: priceChange_gt_1)
  qed
qed

theorem price_update_batch_witness:
  "map_get (currentTokens_of (tokens aggregate_after)) ''a1'' = Some (tok ''a1'' ''A'' 1.02 5)
 \<and> map_get snapshot_before ''a1'' = Some (tok ''a1'' ''A'' 1 5)
 \<and> tok ''a1'' ''A'' 1.02 5 \<in> set (updates (fst (checkForUpdates snapshot_before (Inr aggregate_after))))
 \<and> map_get (currentTokens_of (tokens aggregate_after)) ''b2'' = Some (tok ''b2'' ''B'' 1.005 7)
 \<and> map_get snapshot_before ''b2'' = Some (tok ''b2'' ''B'' 1 7)
 \<and> tok ''b2'' ''B'' 1.005 7 \<notin> set (updates (fst (checkForUpdates snapshot_before (Inr aggregate_after))))"
proof -
  have ha: "map_get (currentTokens_of (tokens aggregate_after)) ''a1'' = Some (tok ''a1'' ''A'' 1.02 5)
     \<and> map_get snapshot_before ''a1'' = Some (tok ''a1'' ''A'' 1 5)"
    by code_simp
  have hb: "map_get (currentTokens_of (tokens aggregate_after)) ''b2'' = Some (tok ''b2'' ''B'' 1.005 7)
     \<and> map_get snapshot_before ''b2'' = Some (tok ''b2'' ''B'' 1 7)"
    by code_simp
  have pa: "price_sol (tok ''a1'' ''A'' 1 5) = 1 \<and> price_sol (tok ''a1'' ''A'' 1.02 5) = 1.02"
    by (simp add: tok_def)
  have pb: "price_sol (tok ''b2'' ''B'' 1 7) = 1 \<and> price_sol (tok ''b2'' ''B'' 1.005 7) = 1.005"
    by (simp add: tok_def)
  from ha pa price_update_batch [of aggregate_after "''a1''" "tok ''a1'' ''A'' 1.02 5" snapshot_before "tok ''a1'' ''A'' 1 5"]
  have a: "tok ''a1'' ''A'' 1.02 5 \<in> set (updates (fst (checkForUpdates snapshot_before (Inr aggregate_after))))"
    by blast
  from hb pb price_update_batch [of aggregate_after "''b2''" "tok ''b2'' ''B'' 1.005 7" snapshot_before "tok ''b2'' ''B'' 1 7"]
  have b: "tok ''b2'' ''B'' 1.005 7 \<notin> set (updates (fst (checkForUpdates snapshot_before (Inr aggregate_after))))"
    by blast
  from ha hb a b show ?thesis by blast
qed

text \<open>
  The formula as the specification writes it divides the absolute difference by the previous
  price; for a negative previous price it is negative, and the code still reports the move.
\<close>

theorem price_update_negative_price:
  "map_get (currentTokens_of (tokens (response_of [tok ''a1'' ''A'' (- 2) 5]))) ''a1''
     = Some (tok ''a1'' ''A'' (- 2) 5)
 \<and> map_get [(''a1'', tok ''a1'' ''A'' (- 1) 5)] ''a1'' = Some (tok ''a1'' ''A'' (- 1) 5)
 \<and> tok ''a1'' ''A'' (- 2) 5
     \<in> set (updates (fst (checkForUpdates [(''a1'', tok ''a1'' ''A'' (- 1) 5)]
                           (Inr (response_of [tok ''a1'' ''A'' (- 2) 5])))))
 \<and> \<not> js_gt (spec_priceDeltaPct (tok ''a1'' ''A'' (- 2) 5) (tok ''a1'' ''A'' (- 1) 5)) 1"
  by code_simp

end
